(* ===== verification/Prelude.thy ===== *)
theory Prelude
  imports Main "HOL-Library.AList" "HOL-Library.Sublist" "HOL-Library.List_Lexorder"
    "HOL-Library.Char_ord" "HOL-Library.Multiset"
begin

text \<open>
  Shared vocabulary of the development: the named collections of rewrite rules, the generic
  lemmas on lists and sums, Go's maps (\<open>gomap\<close>: a map value is nil or a finite table, and a
  write to a nil map panics) and Go's durations.
\<close>

named_theorems gomap_defs \<open>the operations on Go maps by their definitions\<close>
named_theorems prog_defs \<open>the reconciler's handlers and the rules to run them\<close>

type_synonym duration = int

definition second :: duration where
  "second = 1000000000"

section \<open>Go maps\<close>

text \<open>
  A \<open>map[string]V\<close> value is nil (\<open>None\<close>) or a table. The table is an association list: its order
  stands for the unspecified order in which \<open>range\<close> visits the keys. Reading or deleting from a
  nil map is allowed; writing to one panics, which \<open>gm_put\<close> reports as \<open>None\<close>.
\<close>

type_synonym 'v gomap = "(string \<times> 'v) list option"

definition gm_get :: "'v gomap \<Rightarrow> string \<Rightarrow> 'v option" where
  "gm_get m k = (case m of None \<Rightarrow> None | Some al \<Rightarrow> map_of al k)"

definition gm_keys :: "'v gomap \<Rightarrow> string list" where
  "gm_keys m = (case m of None \<Rightarrow> [] | Some al \<Rightarrow> map fst al)"

definition gm_entries :: "'v gomap \<Rightarrow> (string \<times> 'v) list" where
  "gm_entries m = (case m of None \<Rightarrow> [] | Some al \<Rightarrow> al)"

definition gm_put :: "string \<Rightarrow> 'v \<Rightarrow> 'v gomap \<Rightarrow> 'v gomap option" where
  "gm_put k v m = (case m of None \<Rightarrow> None | Some al \<Rightarrow> Some (Some (AList.update k v al)))"

definition gm_delete :: "string \<Rightarrow> 'v gomap \<Rightarrow> 'v gomap" where
  "gm_delete k m = map_option (AList.delete k) m"

text \<open>\<open>if m == nil { m = map[string]V{} }\<close>\<close>

definition gm_ensure :: "'v gomap \<Rightarrow> 'v gomap" where
  "gm_ensure m = (case m of None \<Rightarrow> Some [] | Some al \<Rightarrow> Some al)"

declare gm_get_def [gomap_defs] gm_keys_def [gomap_defs] gm_entries_def [gomap_defs] gm_put_def [gomap_defs]
  gm_delete_def [gomap_defs] gm_ensure_def [gomap_defs]

text \<open>The key order of a table lists every key once.\<close>

definition gm_wf :: "'v gomap \<Rightarrow> bool" where
  "gm_wf m \<longleftrightarrow> distinct (gm_keys m)"

lemma gm_get_None [simp]: "gm_get None k = None"
  by (simp add: gomap_defs)

lemma gm_get_Some [simp]: "gm_get (Some al) k = map_of al k"
  by (simp add: gomap_defs)

lemma gm_get_ensure [simp]: "gm_get (gm_ensure m) k = gm_get m k"
  by (simp add: gomap_defs split: option.split)

lemma gm_ensure_Some: "\<exists>al. gm_ensure m = Some al"
  by (simp add: gomap_defs split: option.split)

lemma gm_ensure_neq_None [simp]: "gm_ensure m \<noteq> None"
  by (simp add: gomap_defs split: option.split)

lemma gm_put_Some [simp]: "gm_put k v (Some al) = Some (Some (AList.update k v al))"
  by (simp add: gomap_defs)

lemma gm_put_ensure: "gm_put k v (gm_ensure m) \<noteq> None"
  by (simp add: gomap_defs split: option.split)

lemma gm_get_put: "gm_put k v m = Some m' \<Longrightarrow> gm_get m' j = (if j = k then Some v else gm_get m j)"
  by (auto simp: gm_put_def update_conv' split: option.splits)

lemma gm_get_delete [simp]: "gm_get (gm_delete k m) j = (if j = k then None else gm_get m j)"
  by (cases m) (auto simp: gomap_defs delete_conv')

lemma gm_keys_get: "k \<in> set (gm_keys m) \<longleftrightarrow> gm_get m k \<noteq> None"
  by (cases m) (auto simp: gomap_defs map_of_eq_None_iff)

lemma gm_wf_None [simp]: "gm_wf None"
  by (simp add: gm_wf_def gm_keys_def)

lemma gm_wf_Some: "gm_wf (Some al) \<longleftrightarrow> distinct (map fst al)"
  by (simp add: gm_wf_def gm_keys_def)

lemma gm_wf_ensure [simp]: "gm_wf (gm_ensure m) = gm_wf m"
  by (cases m) (simp_all add: gm_wf_def gomap_defs)

lemma gm_wf_put: "gm_put k v m = Some m' \<Longrightarrow> gm_wf m \<Longrightarrow> gm_wf m'"
  by (auto simp: gm_put_def gm_wf_Some distinct_update split: option.splits)

lemma gm_wf_delete [simp]: "gm_wf m \<Longrightarrow> gm_wf (gm_delete k m)"
  by (cases m) (simp_all add: gm_delete_def gm_wf_Some distinct_delete)

end
