(* ===== verification/GoStrings.thy ===== *)
theory GoStrings
  imports Prelude
begin

text \<open>
  Go strings are byte sequences; a \<open>string\<close> is a list of \<open>char\<close>, one \<open>char\<close> per byte. The theory
  models what the program uses of the packages \<open>strings\<close>, \<open>unicode\<close>, \<open>unicode/utf8\<close> and \<open>sort\<close>:
  rune decoding (\<open>for _, c := range s\<close>), \<open>IsSpace\<close>, \<open>IsControl\<close>, \<open>TrimSpace\<close>, \<open>Contains\<close>,
  \<open>HasPrefix\<close>, \<open>TrimPrefix\<close>, \<open>TrimSuffix\<close>, \<open>Split\<close>, \<open>Join\<close>, \<open>ToLower\<close> and the
  precision verb \<open>%.8s\<close>. The lemmas show that decoding is self-synchronising, that trimming a string
  without space runes is the identity, and that \<open>Split\<close> inverts \<open>Join\<close>.
\<close>

section \<open>Bytes and runes\<close>

definition byte :: "char \<Rightarrow> nat" where
  "byte c = of_char c"

definition chr :: "nat \<Rightarrow> char" where
  "chr n = char_of n"

lemma byte_chr: "n < 256 \<Longrightarrow> byte (chr n) = n"
  by (simp add: byte_def chr_def)

lemma chr_byte [simp]: "chr (byte c) = c"
  by (simp add: byte_def chr_def)

lemma byte_less [simp]: "byte c < 256"
  by (simp add: byte_def)

lemma byte_eq_iff: "byte c = byte d \<longleftrightarrow> c = d"
  by (metis chr_byte)

text \<open>Continuation bytes (\<open>10xxxxxx\<close>); every other byte is \<open>utf8.RuneStart\<close>.\<close>

definition is_cont :: "char \<Rightarrow> bool" where
  "is_cont c \<longleftrightarrow> 128 \<le> byte c \<and> byte c \<le> 191"

definition rune_error :: nat where
  "rune_error = 65533"

text \<open>
  \<open>utf8.DecodeRuneInString\<close>: the rune at the head and the number of bytes it takes. An ill-formed
  head gives the replacement rune and one byte; the second-byte ranges exclude overlong forms,
  surrogates and values past 10FFFF.
\<close>

definition second_ok :: "nat \<Rightarrow> nat \<Rightarrow> bool" where
  "second_ok b0 b1 \<longleftrightarrow>
     (if b0 = 224 then 160 \<le> b1 \<and> b1 \<le> 191
      else if b0 = 237 then 128 \<le> b1 \<and> b1 \<le> 159
      else if b0 = 240 then 144 \<le> b1 \<and> b1 \<le> 191
      else if b0 = 244 then 128 \<le> b1 \<and> b1 \<le> 143
      else 128 \<le> b1 \<and> b1 \<le> 191)"

definition decode_rune :: "string \<Rightarrow> nat \<times> nat" where
  "decode_rune s = (case s of [] \<Rightarrow> (rune_error, 0) | c0 # t0 \<Rightarrow>
     if byte c0 < 128 then (byte c0, 1)
     else if byte c0 < 194 \<or> 244 < byte c0 then (rune_error, 1)
     else (case t0 of [] \<Rightarrow> (rune_error, 1) | c1 # t1 \<Rightarrow>
       if \<not> second_ok (byte c0) (byte c1) then (rune_error, 1)
       else if byte c0 < 224 then ((byte c0 - 192) * 64 + (byte c1 - 128), 2)
       else (case t1 of [] \<Rightarrow> (rune_error, 1) | c2 # t2 \<Rightarrow>
         if \<not> is_cont c2 then (rune_error, 1)
         else if byte c0 < 240
         then ((byte c0 - 224) * 4096 + (byte c1 - 128) * 64 + (byte c2 - 128), 3)
         else (case t2 of [] \<Rightarrow> (rune_error, 1) | c3 # t3 \<Rightarrow>
           if \<not> is_cont c3 then (rune_error, 1)
           else ((byte c0 - 240) * 262144 + (byte c1 - 128) * 4096
                 + (byte c2 - 128) * 64 + (byte c3 - 128), 4)))))"

text \<open>\<open>utf8.EncodeRune\<close>; surrogates and values out of range become the replacement rune.\<close>

definition encode_rune :: "nat \<Rightarrow> string" where
  "encode_rune r =
     (if r < 128 then [chr r]
      else if r < 2048 then [chr (192 + r div 64), chr (128 + r mod 64)]
      else if 1114111 < r \<or> (55296 \<le> r \<and> r \<le> 57343) then [chr 239, chr 191, chr 189]
      else if r < 65536
      then [chr (224 + r div 4096), chr (128 + r div 64 mod 64), chr (128 + r mod 64)]
      else [chr (240 + r div 262144), chr (128 + r div 4096 mod 64),
            chr (128 + r div 64 mod 64), chr (128 + r mod 64)])"

text \<open>The segments of a string: every rune a \<open>range\<close> loop sees, with the bytes it stands for.\<close>

function segs :: "string \<Rightarrow> (nat \<times> string) list" where
  "segs [] = []"
| "segs (c # cs) =
     (let (r, n) = decode_rune (c # cs)
      in (r, take n (c # cs)) # segs (drop (n - 1) cs))"
  by pat_completeness auto
termination
  by (relation "measure length") auto

definition runes :: "string \<Rightarrow> nat list" where
  "runes s = map fst (segs s)"

text \<open>The ill-formed bytes of a string are its one-byte segments that decode to the replacement rune.\<close>

definition valid_utf8 :: "string \<Rightarrow> bool" where
  "valid_utf8 s \<longleftrightarrow> list_all (\<lambda>(r, bs). \<not> (r = rune_error \<and> length bs = 1)) (segs s)"

section \<open>Facts about decoding\<close>

lemmas decode_splits = list.splits if_splits

lemma decode_rune_Nil [simp]: "decode_rune [] = (rune_error, 0)"
  by (simp add: decode_rune_def)

lemma decode_rune_size:
  assumes "decode_rune s = (r, n)" and "s \<noteq> []"
  shows "1 \<le> n" and "n \<le> length s" and "n \<le> 4"
  using assms by (auto simp: decode_rune_def split: decode_splits)

lemma decode_rune_ascii: "byte c < 128 \<Longrightarrow> decode_rune (c # cs) = (byte c, 1)"
  by (simp add: decode_rune_def)

text \<open>A well-formed rune is recognised from its own bytes, whatever follows them.\<close>

lemma decode_rune_prefix:
  assumes "decode_rune s = (r, n)" and "s \<noteq> []" and "\<not> (r = rune_error \<and> n = 1)"
  shows "decode_rune (take n s @ t) = (r, n)"
proof -
  obtain c0 t0 where s: "s = c0 # t0" using assms(2) by (cases s) auto
  consider (one) "n = 1" "byte c0 < 128"
    | (two) c1 t1 where "t0 = c1 # t1" "n = 2"
    | (three) c1 c2 t2 where "t0 = c1 # c2 # t2" "n = 3"
    | (four) c1 c2 c3 t3 where "t0 = c1 # c2 # c3 # t3" "n = 4"
    using assms(1,3) unfolding s decode_rune_def
    by (simp only: list.case split: decode_splits) auto
  then show ?thesis
  proof cases
    case one
    then show ?thesis using assms(1) unfolding s by (simp add: decode_rune_ascii)
  next
    case two
    then show ?thesis using assms(1) unfolding s decode_rune_def
      by (simp add: numeral_2_eq_2 split: if_splits list.splits)
  next
    case three
    then show ?thesis using assms(1) unfolding s decode_rune_def
      by (simp add: numeral_3_eq_3 split: if_splits list.splits)
  next
    case four
    then show ?thesis using assms(1) unfolding s decode_rune_def
      by (simp split: if_splits)
  qed
qed

lemma second_ok_cont: "second_ok (byte c) (byte d) \<Longrightarrow> is_cont d"
  by (auto simp: second_ok_def is_cont_def split: if_splits)

text \<open>
  Decoding is self-synchronising: what follows a run of bytes does not change how the run decodes
  when it starts with a byte that is not a continuation byte.
\<close>

lemma decode_rune_append:
  assumes "a \<noteq> []" and "\<And>d ds. b = d # ds \<Longrightarrow> \<not> is_cont d"
  shows "decode_rune (a @ b) = decode_rune a"
  using assms
  by (cases b; cases a) (auto simp: decode_rune_def Cons_eq_append_conv
      dest: second_ok_cont split: list.split)

lemma segs_append:
  assumes "\<And>d ds. b = d # ds \<Longrightarrow> \<not> is_cont d"
  shows "segs (a @ b) = segs a @ segs b"
proof (induction a rule: segs.induct)
  case 1
  then show ?case by simp
next
  case (2 c cs)
  obtain r n where rn: "decode_rune (c # cs) = (r, n)" by fastforce
  have app: "decode_rune (c # cs @ b) = (r, n)"
    using decode_rune_append [of "c # cs" b] assms rn by simp
  have n: "1 \<le> n" "n \<le> Suc (length cs)"
    using decode_rune_size [OF rn] by simp_all
  have "segs (drop (n - 1) cs @ b) = segs (drop (n - 1) cs) @ segs b"
    using "2" rn by simp
  then show ?case using n by (cases n) (simp_all add: rn app)
qed

lemma runes_append:
  assumes "\<And>d ds. b = d # ds \<Longrightarrow> \<not> is_cont d"
  shows "runes (a @ b) = runes a @ runes b"
  using segs_append [of b a] assms by (simp add: runes_def)

lemma runes_Nil [simp]: "runes [] = []"
  by (simp add: runes_def)

lemma runes_eq_Nil [simp]: "runes s = [] \<longleftrightarrow> s = []"
  by (cases s) (simp_all add: runes_def case_prod_beta Let_def)

lemma runes_hd: "s \<noteq> [] \<Longrightarrow> fst (decode_rune s) \<in> set (runes s)"
  by (cases s) (simp_all add: runes_def case_prod_beta Let_def)

lemma concat_segs [simp]: "concat (map snd (segs s)) = s"
proof (induction s rule: segs.induct)
  case 1
  then show ?case by simp
next
  case (2 c cs)
  obtain r n where rn: "decode_rune (c # cs) = (r, n)" by fastforce
  then have n: "1 \<le> n" using decode_rune_size(1) [OF rn] by simp
  have "concat (map snd (segs (drop (n - 1) cs))) = drop (n - 1) cs"
    using "2" rn by simp
  with n show ?case by (cases n) (simp_all add: rn)
qed

lemma segs_ascii: "byte c < 128 \<Longrightarrow> segs (c # cs) = (byte c, [c]) # segs cs"
  by (simp add: decode_rune_ascii)

lemma runes_ascii: "byte c < 128 \<Longrightarrow> runes (c # cs) = byte c # runes cs"
  by (simp add: runes_def segs_ascii del: segs.simps)

lemma ascii_runes: "list_all (\<lambda>c. byte c < 128) s \<Longrightarrow> runes s = map byte s"
  by (induction s) (simp_all add: runes_ascii)

lemma ascii_valid_utf8: "list_all (\<lambda>c. byte c < 128) s \<Longrightarrow> valid_utf8 s"
  by (induction s) (auto simp: valid_utf8_def segs_ascii rune_error_def simp del: segs.simps(2))

declare segs.simps(2) [simp del]

text \<open>Every ASCII byte of a string is one of its runes.\<close>

lemma ascii_byte_in_runes:
  assumes "c \<in> set s" and "byte c < 128"
  shows "byte c \<in> set (runes s)"
proof -
  obtain a b where s: "s = a @ c # b" using assms(1) by (meson split_list)
  have "\<not> is_cont c" using assms(2) by (simp add: is_cont_def)
  then have "runes s = runes a @ runes (c # b)"
    using s runes_append [of "c # b" a] by simp
  then show ?thesis using assms(2) by (simp add: runes_ascii)
qed

section \<open>Spaces, control characters and trimming\<close>

text \<open>\<open>unicode.IsSpace\<close> and \<open>unicode.IsControl\<close>.\<close>

definition is_space :: "nat \<Rightarrow> bool" where
  "is_space r \<longleftrightarrow> r \<in> {9, 10, 11, 12, 13, 32, 133, 160, 5760, 8232, 8233, 8239, 8287, 12288}
     \<or> (8192 \<le> r \<and> r \<le> 8202)"

definition is_control :: "nat \<Rightarrow> bool" where
  "is_control r \<longleftrightarrow> r < 32 \<or> (127 \<le> r \<and> r < 160)"

lemma not_space_rune_error [simp]: "\<not> is_space rune_error"
  by (simp add: is_space_def rune_error_def)

text \<open>\<open>utf8.DecodeLastRuneInString\<close>: the scan back looks at up to three bytes before the last one.\<close>

definition last_start :: "string \<Rightarrow> nat" where
  "last_start s =
     (let n = length s; lim = n - 4
      in case find (\<lambda>i. \<not> is_cont (s ! i)) (rev [lim ..< n - 1]) of
           Some i \<Rightarrow> i | None \<Rightarrow> lim - 1)"

definition decode_last_rune :: "string \<Rightarrow> nat \<times> nat" where
  "decode_last_rune s =
     (if s = [] then (rune_error, 0)
      else if byte (last s) < 128 then (byte (last s), 1)
      else (let start = last_start s; (r, n) = decode_rune (drop start s)
            in if start + n = length s then (r, n) else (rune_error, 1)))"

function trim_left :: "string \<Rightarrow> string" where
  "trim_left [] = []"
| "trim_left (c # cs) =
     (let (r, n) = decode_rune (c # cs)
      in if is_space r then trim_left (drop (n - 1) cs) else c # cs)"
  by pat_completeness auto
termination
  by (relation "measure length") auto

lemma last_start_less: "s \<noteq> [] \<Longrightarrow> last_start s < length s"
proof (cases "find (\<lambda>i. \<not> is_cont (s ! i)) (rev [length s - 4 ..< length s - 1])")
  case None
  assume "s \<noteq> []"
  with None show ?thesis by (cases s) (auto simp: last_start_def Let_def)
next
  case (Some i)
  then have "i \<in> set (rev [length s - 4 ..< length s - 1])"
    unfolding find_Some_iff by (metis nth_mem)
  with Some show ?thesis by (auto simp: last_start_def Let_def)
qed

lemma decode_last_rune_size:
  assumes "s \<noteq> []" and "decode_last_rune s = (r, n)"
  shows "1 \<le> n"
proof -
  obtain r' n' where rn: "decode_rune (drop (last_start s) s) = (r', n')" by fastforce
  have "drop (last_start s) s \<noteq> []" using last_start_less [OF assms(1)] by simp
  then have "1 \<le> n'" using decode_rune_size(1) [OF rn] by simp
  then show ?thesis
    using assms rn by (auto simp: decode_last_rune_def Let_def split: if_splits)
qed

function trim_right :: "string \<Rightarrow> string" where
  "trim_right s =
     (if s = [] then []
      else let (r, n) = decode_last_rune s
           in if is_space r then trim_right (take (length s - n) s) else s)"
  by pat_completeness auto
termination
proof (relation "measure length")
  fix s x r n
  assume "s \<noteq> []" and "x = decode_last_rune s" and "(r, n) = x"
  then have "1 \<le> n" using decode_last_rune_size by metis
  then show "(take (length s - n) s, s) \<in> measure length" using \<open>s \<noteq> []\<close> by auto
qed simp

declare trim_right.simps [simp del]

text \<open>\<open>strings.TrimSpace\<close>.\<close>

definition trim_space :: "string \<Rightarrow> string" where
  "trim_space s = trim_right (trim_left s)"

text \<open>A byte that starts a space rune is never a continuation byte.\<close>

lemma space_rune_start:
  assumes "decode_rune (c # cs) = (r, n)" and "is_space r"
  shows "\<not> is_cont c"
proof
  assume "is_cont c"
  then have "decode_rune (c # cs) = (rune_error, 1)"
    by (simp add: decode_rune_def is_cont_def)
  then show False using assms by simp
qed

text \<open>A space rune at the end is found by the forward reading too.\<close>

lemma last_space_in_runes:
  assumes "s \<noteq> []" and "decode_last_rune s = (r, n)" and "is_space r"
  shows "r \<in> set (runes s)"
proof (cases "byte (last s) < 128")
  case True
  then have "r = byte (last s)" using assms(1,2) by (simp add: decode_last_rune_def)
  then show ?thesis using True assms(1) ascii_byte_in_runes by simp
next
  case False
  define i where "i = last_start s"
  have r: "decode_rune (drop i s) = (r, n)"
    using assms False
    by (auto simp: decode_last_rune_def i_def Let_def case_prod_beta split: if_splits)
    have "i < length s" using last_start_less [OF assms(1)] by (simp add: i_def)
  then obtain c cs where d: "drop i s = c # cs" by (metis Cons_nth_drop_Suc)
  have "\<not> is_cont c" using space_rune_start r assms(3) d by simp
  then have "runes (take i s @ drop i s) = runes (take i s) @ runes (drop i s)"
    using d runes_append by force
  then have "set (runes (drop i s)) \<subseteq> set (runes s)" by simp
  moreover have "r \<in> set (runes (drop i s))"
    using runes_hd [of "drop i s"] r d by simp
  ultimately show ?thesis by blast
qed

text \<open>Trimming leaves a string without space runes alone.\<close>

lemma trim_space_id:
  assumes "\<And>r. r \<in> set (runes s) \<Longrightarrow> \<not> is_space r"
  shows "trim_space s = s"
proof (cases s)
  case Nil
  then show ?thesis by (simp add: trim_space_def trim_right.simps)
next
  case (Cons c cs)
  have "\<not> is_space (fst (decode_rune s))" using runes_hd [of s] assms Cons by simp
  then have l: "trim_left s = s" using Cons by (simp add: case_prod_beta)
  have "\<not> is_space (fst (decode_last_rune s))"
    using last_space_in_runes [of s] assms Cons by (metis list.distinct(1) prod.collapse)
  then have "trim_right s = s" by (subst trim_right.simps) (simp add: case_prod_beta Let_def)
  with l show ?thesis by (simp add: trim_space_def)
qed

text \<open>Where trimming stops: neither end of the result is a space rune.\<close>

lemma trim_left_head: "trim_left s = [] \<or> \<not> is_space (fst (decode_rune (trim_left s)))"
  by (induction s rule: trim_left.induct) (auto split: prod.split)

lemma trim_right_prefix: "prefix (trim_right s) s"
proof (induction s rule: trim_right.induct)
  case (1 s)
  show ?case
  proof (cases "s \<noteq> [] \<and> is_space (fst (decode_last_rune s))")
    case True
    obtain r n where rn: "decode_last_rune s = (r, n)" by fastforce
    have "trim_right s = trim_right (take (length s - n) s)"
      using True rn by (subst trim_right.simps) simp
    then show ?thesis
      using "1" True rn by (metis fst_conv prefix_order.trans take_is_prefix)
  next
    case False
    then have "trim_right s = s" by (subst trim_right.simps) (auto simp: case_prod_beta Let_def)
    then show ?thesis by simp
  qed
qed

lemma decode_rune_take:
  assumes "decode_rune (take k s) = (r, n)" and "take k s \<noteq> []"
  shows "decode_rune s = (r, n) \<or> r = rune_error"
proof (cases "r = rune_error")
  case False
  have "decode_rune (take n (take k s) @ drop n s) = (r, n)"
    using decode_rune_prefix [OF assms] False by simp
  moreover have "n \<le> k"
    using decode_rune_size(2) [OF assms] by simp
  ultimately show ?thesis by (simp add: min_def)
qed simp

lemma trim_space_head: "trim_space s = [] \<or> \<not> is_space (fst (decode_rune (trim_space s)))"
proof (cases "trim_space s = []")
  case False
  obtain k where k: "trim_space s = take k (trim_left s)"
    using trim_right_prefix [of "trim_left s"] unfolding trim_space_def prefix_def
    by (metis append_eq_conv_conj)
  obtain r n where rn: "decode_rune (trim_space s) = (r, n)" by fastforce
  have "decode_rune (trim_left s) = (r, n) \<or> r = rune_error"
    using decode_rune_take [of k "trim_left s" r n] rn False k by simp
  moreover have "trim_left s \<noteq> []" using False k by auto
  ultimately show ?thesis using trim_left_head [of s] rn by auto
qed simp

lemma trim_space_ends:
  assumes "s \<noteq> []" and "\<not> is_space (fst (decode_rune s))" and "\<not> is_space (fst (decode_last_rune s))"
  shows "trim_space s = s"
proof -
  have "trim_left s = s" using assms(1,2) by (cases s) (simp_all add: case_prod_beta)
  moreover have "trim_right s = s" using assms(3) by (subst trim_right.simps) (simp add: case_prod_beta Let_def)
  ultimately show ?thesis by (simp add: trim_space_def)
qed

lemma trim_right_last: "trim_right s = [] \<or> \<not> is_space (fst (decode_last_rune (trim_right s)))"
proof (induction s rule: trim_right.induct)
  case (1 s)
  show ?case
  proof (cases "s \<noteq> [] \<and> is_space (fst (decode_last_rune s))")
    case True
    obtain r n where rn: "decode_last_rune s = (r, n)" by fastforce
    then have "trim_right s = trim_right (take (length s - n) s)"
      using True by (subst trim_right.simps) simp
    then show ?thesis using "1" True rn by (metis fst_conv)
  next
    case False
    then have "trim_right s = s" by (subst trim_right.simps) (auto simp: case_prod_beta Let_def)
    then show ?thesis using False by auto
  qed
qed

lemma trim_space_idem [simp]: "trim_space (trim_space s) = trim_space s"
proof (cases "trim_space s = []")
  case True
  then show ?thesis by (simp add: trim_space_def trim_right.simps)
next
  case False
  then have "\<not> is_space (fst (decode_last_rune (trim_space s)))"
    using trim_right_last [of "trim_left s"] by (simp add: trim_space_def)
  with False show ?thesis using trim_space_head [of s] by (intro trim_space_ends) auto
qed

lemma trim_space_Nil [simp]: "trim_space [] = []"
  by (simp add: trim_space_def trim_right.simps)

lemma decode_last_rune_ascii: "byte c < 128 \<Longrightarrow> decode_last_rune (s @ [c]) = (byte c, 1)"
  by (simp add: decode_last_rune_def)

section \<open>Substrings, splitting and joining\<close>

text \<open>\<open>strings.HasPrefix(s, p)\<close>, \<open>strings.Contains(s, sub)\<close>, \<open>strings.TrimPrefix\<close>, \<open>strings.TrimSuffix\<close>.\<close>

definition has_prefix :: "string \<Rightarrow> string \<Rightarrow> bool" where
  "has_prefix s p \<longleftrightarrow> prefix p s"

fun contains :: "string \<Rightarrow> string \<Rightarrow> bool" where
  "contains [] sub = (sub = [])"
| "contains (c # cs) sub = (prefix sub (c # cs) \<or> contains cs sub)"

definition trim_prefix :: "string \<Rightarrow> string \<Rightarrow> string" where
  "trim_prefix s p = (if prefix p s then drop (length p) s else s)"

definition trim_suffix :: "string \<Rightarrow> string \<Rightarrow> string" where
  "trim_suffix s p = (if suffix p s then take (length s - length p) s else s)"

lemma contains_iff: "contains s sub \<longleftrightarrow> (\<exists>a b. s = a @ sub @ b)"
proof (induction s)
  case Nil
  then show ?case by simp
next
  case (Cons c cs)
  show ?case
  proof
    assume "contains (c # cs) sub"
    then consider "prefix sub (c # cs)" | "\<exists>a b. cs = a @ sub @ b" using Cons.IH by auto
    then show "\<exists>a b. c # cs = a @ sub @ b"
    proof cases
      case 1
      then show ?thesis by (metis append_Nil prefixE)
    next
      case 2
      then show ?thesis by (metis append_Cons)
    qed
  next
    assume "\<exists>a b. c # cs = a @ sub @ b"
    then obtain a b where ab: "c # cs = a @ sub @ b" by blast
    show "contains (c # cs) sub"
    proof (cases a)
      case Nil
      then have "prefix sub (c # cs)" using ab by simp
      then show ?thesis by simp
    next
      case (Cons d a')
      then have "contains cs sub" using ab Cons.IH by auto
      then show ?thesis by simp
    qed
  qed
qed

lemma contains_append_right: "contains (a @ s) s"
  unfolding contains_iff by (metis append_Nil2)

text \<open>\<open>strings.Join(ss, sep)\<close> and \<open>strings.Split(s, sep)\<close> for a separator of one byte.\<close>

fun join :: "string \<Rightarrow> string list \<Rightarrow> string" where
  "join sep [] = []"
| "join sep [s] = s"
| "join sep (s # ss) = s @ sep @ join sep ss"

fun split_on :: "char \<Rightarrow> string \<Rightarrow> string list" where
  "split_on d [] = [[]]"
| "split_on d (c # cs) =
     (if c = d then [] # split_on d cs
      else (case split_on d cs of [] \<Rightarrow> [[c]] | p # ps \<Rightarrow> (c # p) # ps))"

lemma split_on_nonempty [simp]: "split_on d s \<noteq> []"
  by (induction s) (auto split: list.split)

lemma split_on_plain: "d \<notin> set s \<Longrightarrow> split_on d s = [s]"
  by (induction s) auto

lemma split_on_append: "d \<notin> set s \<Longrightarrow> split_on d (s @ d # t) = s # split_on d t"
  by (induction s) auto

lemma split_join:
  assumes "\<And>s. s \<in> set ss \<Longrightarrow> d \<notin> set s" and "ss \<noteq> []"
  shows "split_on d (join [d] ss) = ss"
  using assms by (induction "[d]" ss rule: join.induct) (simp_all add: split_on_plain split_on_append)

text \<open>The precision verb \<open>%.Ns\<close> keeps the first \<open>N\<close> runes.\<close>

definition take_runes :: "nat \<Rightarrow> string \<Rightarrow> string" where
  "take_runes n s = concat (map snd (take n (segs s)))"

lemma take_runes_ascii: "list_all (\<lambda>c. byte c < 128) s \<Longrightarrow> take_runes n s = take n s"
proof (induction s arbitrary: n)
  case Nil
  then show ?case by (simp add: take_runes_def)
next
  case (Cons c s)
  then show ?case by (cases n) (simp_all add: take_runes_def segs_ascii)
qed

lemma take_runes_prefix: "prefix (take_runes n s) s"
proof -
  have "concat (map snd (take n (segs s))) @ concat (map snd (drop n (segs s))) = s"
    by (metis append_take_drop_id concat_append concat_segs map_append)
  then show ?thesis unfolding take_runes_def prefix_def by metis
qed

text \<open>
  \<open>strings.ToLower\<close>, rune by rune. The letters A to Z and the two runes outside ASCII whose lower
  case is ASCII (U+0130 to i, U+212A to k) are mapped; the other runes outside ASCII are left as
  they are, because the program only compares the result with ASCII prefixes and none of their
  lower-case forms is ASCII. An ill-formed byte becomes the replacement rune.
\<close>

definition lower_rune :: "nat \<Rightarrow> nat" where
  "lower_rune r =
     (if 65 \<le> r \<and> r \<le> 90 then r + 32
      else if r = 304 then 105
      else if r = 8490 then 107
      else r)"

definition to_lower :: "string \<Rightarrow> string" where
  "to_lower s = concat (map (\<lambda>r. encode_rune (lower_rune r)) (runes s))"

section \<open>Sorting\<close>

text \<open>
  \<open>sort.Strings\<close> and \<open>slices.Sort\<close> on strings order by bytes; the order of \<open>char list\<close> is
  lexicographic on the byte values, so they are \<open>sort\<close>. Two slices are equal after sorting exactly
  when they hold the same strings equally often.
\<close>

lemma sort_eq_iff_mset: "sort xs = sort ys \<longleftrightarrow> mset xs = mset ys"
  for xs ys :: "string list"
  by (metis mset_sort properties_for_sort sorted_sort)

end
