(* ===== verification/GoJson.thy ===== *)
theory GoJson
  imports GoStrings
begin

text \<open>
  What the program uses of \<open>encoding/json\<close>: the text \<open>Marshal\<close> and \<open>Encoder.Encode\<close> write, the
  documents \<open>Unmarshal\<close> (the whole input) and \<open>Decoder.Decode\<close> (one value from the front of the
  input) accept, and the rules by which a document is stored into the fields of a struct. Strings
  are escaped and unescaped byte by byte, ill-formed UTF-8 and lone surrogates become the
  replacement rune, and nesting past 10000 levels is a syntax error. The main lemmas: parsing needs
  no more fuel than twice the length of its input, and the parser inverts the printer.
\<close>

datatype json =
    JNull
  | JBool bool
  | JNum string
  | JStr string
  | JArr "json list"
  | JObj "(string \<times> json) list"

section \<open>Printing\<close>

definition hex_digit :: "nat \<Rightarrow> char" where
  "hex_digit n = (if n < 10 then chr (48 + n) else chr (87 + n))"

text \<open>The backslash (92) and the double quote (34).\<close>

definition bslash :: char where "bslash = CHR 0x5C"
definition dquote :: char where "dquote = CHR 0x22"

definition escape_seg :: "nat \<times> string \<Rightarrow> string" where
  "escape_seg seg = (case seg of (r, bs) \<Rightarrow>
     if r = rune_error \<and> length bs = 1 then bslash # ''ufffd''
     else if r = 8232 then bslash # ''u2028''
     else if r = 8233 then bslash # ''u2029''
     else if 128 \<le> r then bs
     else if r = 34 \<or> r = 92 then [bslash, chr r]
     else if r = 8 then bslash # ''b''
     else if r = 12 then bslash # ''f''
     else if r = 10 then bslash # ''n''
     else if r = 13 then bslash # ''r''
     else if r = 9 then bslash # ''t''
     else if r < 32 \<or> r = 60 \<or> r = 62 \<or> r = 38
     then bslash # ''u00'' @ [hex_digit (r div 16), hex_digit (r mod 16)]
     else bs)"

definition escape :: "string \<Rightarrow> string" where
  "escape s = concat (map escape_seg (segs s))"

definition json_quote :: "string \<Rightarrow> string" where
  "json_quote s = dquote # escape s @ [dquote]"

fun json_text :: "json \<Rightarrow> string" where
  "json_text JNull = ''null''"
| "json_text (JBool b) = (if b then ''true'' else ''false'')"
| "json_text (JNum n) = n"
| "json_text (JStr s) = json_quote s"
| "json_text (JArr js) = ''['' @ join '','' (map json_text js) @ '']''"
| "json_text (JObj ms) =
     ''{'' @ join '','' (map (\<lambda>(k, v). json_quote k @ '':'' @ json_text v) ms) @ ''}''"

section \<open>Parsing\<close>

definition is_ws :: "char \<Rightarrow> bool" where
  "is_ws c \<longleftrightarrow> byte c \<in> {32, 9, 13, 10}"

definition skip_ws :: "string \<Rightarrow> string" where
  "skip_ws s = dropWhile is_ws s"

definition hex_value :: "char \<Rightarrow> nat option" where
  "hex_value c =
     (if 48 \<le> byte c \<and> byte c \<le> 57 then Some (byte c - 48)
      else if 97 \<le> byte c \<and> byte c \<le> 102 then Some (byte c - 87)
      else if 65 \<le> byte c \<and> byte c \<le> 70 then Some (byte c - 55)
      else None)"

definition hex4 :: "string \<Rightarrow> nat option" where
  "hex4 s = (case s of
       a # b # c # d # t \<Rightarrow>
         (case (hex_value a, hex_value b, hex_value c, hex_value d) of
            (Some i, Some j, Some k, Some l) \<Rightarrow> Some (((i * 16 + j) * 16 + k) * 16 + l)
          | _ \<Rightarrow> None)
     | _ \<Rightarrow> None)"

text \<open>The escapes of one letter.\<close>

definition simple_escape :: "char \<Rightarrow> string option" where
  "simple_escape e =
     (if byte e = 34 \<or> byte e = 92 \<or> byte e = 47 then Some [e]
      else if e = CHR ''b'' then Some [chr 8]
      else if e = CHR ''f'' then Some [chr 12]
      else if e = CHR ''n'' then Some [chr 10]
      else if e = CHR ''r'' then Some [chr 13]
      else if e = CHR ''t'' then Some [chr 9]
      else None)"

text \<open>
  A low surrogate escape right after a high one completes it; otherwise the surrogate stands for
  the replacement rune and what follows is read on its own.
\<close>

definition low_surrogate :: "string \<Rightarrow> nat option" where
  "low_surrogate s = (case s of
       c # d # t \<Rightarrow>
         if c = bslash \<and> d = CHR ''u''
         then (case hex4 t of
                 Some r \<Rightarrow> if 56320 \<le> r \<and> r \<le> 57343 then Some r else None
               | None \<Rightarrow> None)
         else None
     | _ \<Rightarrow> None)"

definition prepend :: "string \<Rightarrow> (string \<times> string) option \<Rightarrow> (string \<times> string) option" where
  "prepend p = map_option (\<lambda>(s, rest). (p @ s, rest))"

text \<open>The body of a string after its opening quote: the bytes it denotes, and the rest of the input.\<close>

function parse_str :: "string \<Rightarrow> (string \<times> string) option" where
  "parse_str [] = None"
| "parse_str (c # cs) =
     (if c = dquote then Some ([], cs)
      else if c = bslash then
        (case cs of
           [] \<Rightarrow> None
         | e # es \<Rightarrow>
             if e = CHR ''u'' then
               (case hex4 es of
                  None \<Rightarrow> None
                | Some r \<Rightarrow>
                    if 55296 \<le> r \<and> r \<le> 56319 \<and> low_surrogate (drop 4 es) \<noteq> None
                    then prepend (encode_rune ((r - 55296) * 1024
                           + (the (low_surrogate (drop 4 es)) - 56320) + 65536))
                           (parse_str (drop 10 es))
                    else prepend (encode_rune r) (parse_str (drop 4 es)))
             else (case simple_escape e of
                     None \<Rightarrow> None
                   | Some p \<Rightarrow> prepend p (parse_str es)))
      else if byte c < 32 then None
      else prepend (encode_rune (fst (decode_rune (c # cs))))
             (parse_str (drop (snd (decode_rune (c # cs)) - 1) cs)))"
  by pat_completeness auto
termination
  by (relation "measure length") auto

text \<open>\<open>-?(0|[1-9][0-9]*)(.[0-9]+)?([eE][+-]?[0-9]+)?\<close>, as long as it goes.\<close>

definition is_digit :: "char \<Rightarrow> bool" where
  "is_digit c \<longleftrightarrow> 48 \<le> byte c \<and> byte c \<le> 57"

definition digits1 :: "string \<Rightarrow> (string \<times> string) option" where
  "digits1 s = (if takeWhile is_digit s = [] then None
                else Some (takeWhile is_digit s, dropWhile is_digit s))"

definition parse_int :: "string \<Rightarrow> (string \<times> string) option" where
  "parse_int s = (case s of
       [] \<Rightarrow> None
     | c # cs \<Rightarrow> if c = CHR ''0'' then Some ([c], cs) else digits1 s)"

definition parse_frac :: "string \<Rightarrow> (string \<times> string) option" where
  "parse_frac s = (case s of
       [] \<Rightarrow> Some ([], s)
     | c # cs \<Rightarrow> if c = CHR ''.'' then prepend [c] (digits1 cs) else Some ([], s))"

definition parse_exp :: "string \<Rightarrow> (string \<times> string) option" where
  "parse_exp s = (case s of
       [] \<Rightarrow> Some ([], s)
     | c # cs \<Rightarrow>
         if c = CHR ''e'' \<or> c = CHR ''E''
         then (case cs of
                 [] \<Rightarrow> None
               | d # ds \<Rightarrow> if d = CHR ''+'' \<or> d = CHR ''-''
                          then prepend [c, d] (digits1 ds) else prepend [c] (digits1 cs))
         else Some ([], s))"

definition parse_num :: "string \<Rightarrow> (string \<times> string) option" where
  "parse_num s =
     (let (sgn, t) = (case s of [] \<Rightarrow> ([], []) | c # cs \<Rightarrow> if c = CHR ''-'' then ([c], cs) else ([], s))
      in case parse_int t of
           None \<Rightarrow> None
         | Some (i, t1) \<Rightarrow> (case parse_frac t1 of
             None \<Rightarrow> None
           | Some (f, t2) \<Rightarrow> (case parse_exp t2 of
               None \<Rightarrow> None
             | Some (e, t3) \<Rightarrow> Some (sgn @ i @ f @ e, t3))))"

definition parse_word :: "string \<Rightarrow> json \<Rightarrow> string \<Rightarrow> (json \<times> string) option" where
  "parse_word w j s = (if prefix w s then Some (j, drop (length w) s) else None)"

text \<open>Values, array elements after the bracket, object members after the brace.\<close>

fun parse_value :: "nat \<Rightarrow> nat \<Rightarrow> string \<Rightarrow> (json \<times> string) option"
  and parse_elems :: "nat \<Rightarrow> nat \<Rightarrow> string \<Rightarrow> (json list \<times> string) option"
  and parse_members :: "nat \<Rightarrow> nat \<Rightarrow> string \<Rightarrow> ((string \<times> json) list \<times> string) option" where
  "parse_value 0 d s = None"
| "parse_value (Suc n) d s = (case skip_ws s of
       [] \<Rightarrow> None
     | c # cs \<Rightarrow>
         if c = dquote then map_option (\<lambda>(t, r). (JStr t, r)) (parse_str cs)
         else if c = CHR ''['' then
           (if d = 0 then None
            else case skip_ws cs of
                   [] \<Rightarrow> None
                 | e # es \<Rightarrow> if e = CHR '']'' then Some (JArr [], es)
                            else map_option (\<lambda>(js, r). (JArr js, r)) (parse_elems n (d - 1) cs))
         else if c = CHR ''{'' then
           (if d = 0 then None
            else case skip_ws cs of
                   [] \<Rightarrow> None
                 | e # es \<Rightarrow> if e = CHR ''}'' then Some (JObj [], es)
                            else map_option (\<lambda>(ms, r). (JObj ms, r)) (parse_members n (d - 1) cs))
         else if c = CHR ''t'' then parse_word ''true'' (JBool True) (c # cs)
         else if c = CHR ''f'' then parse_word ''false'' (JBool False) (c # cs)
         else if c = CHR ''n'' then parse_word ''null'' JNull (c # cs)
         else map_option (\<lambda>(t, r). (JNum t, r)) (parse_num (c # cs)))"
| "parse_elems 0 d s = None"
| "parse_elems (Suc n) d s = (case parse_value n d s of
       None \<Rightarrow> None
     | Some (j, r) \<Rightarrow> (case skip_ws r of
           [] \<Rightarrow> None
         | e # es \<Rightarrow> if e = CHR '']'' then Some ([j], es)
                    else if e = CHR '','' then map_option (\<lambda>(js, r). (j # js, r)) (parse_elems n d es)
                    else None))"
| "parse_members 0 d s = None"
| "parse_members (Suc n) d s = (case skip_ws s of
       [] \<Rightarrow> None
     | q # qs \<Rightarrow>
         if q \<noteq> dquote then None
         else (case parse_str qs of
             None \<Rightarrow> None
           | Some (k, r) \<Rightarrow> (case skip_ws r of
                 [] \<Rightarrow> None
               | e # es \<Rightarrow>
                   if e \<noteq> CHR '':'' then None
                   else (case parse_value n d es of
                       None \<Rightarrow> None
                     | Some (v, r2) \<Rightarrow> (case skip_ws r2 of
                           [] \<Rightarrow> None
                         | x # xs \<Rightarrow>
                             if x = CHR ''}'' then Some ([(k, v)], xs)
                             else if x = CHR '','' then
                               map_option (\<lambda>(ms, r). ((k, v) # ms, r)) (parse_members n d xs)
                             else None)))))"

definition max_nesting :: nat where
  "max_nesting = 10000"

definition parse_fuel :: "string \<Rightarrow> nat" where
  "parse_fuel s = 2 * length s + 2"

text \<open>\<open>Decoder.Decode\<close> reads one value; \<open>Unmarshal\<close> wants nothing but white space after it.\<close>

definition json_decode :: "string \<Rightarrow> json option" where
  "json_decode s = map_option fst (parse_value (parse_fuel s) max_nesting s)"

definition json_unmarshal :: "string \<Rightarrow> json option" where
  "json_unmarshal s = (case parse_value (parse_fuel s) max_nesting s of
       None \<Rightarrow> None
     | Some (j, r) \<Rightarrow> if skip_ws r = [] then Some j else None)"

section \<open>The parser consumes its input\<close>

lemma skip_ws_length: "length (skip_ws s) \<le> length s"
  by (simp add: skip_ws_def length_dropWhile_le)

lemma skip_ws_Cons_length: "skip_ws s = c # cs \<Longrightarrow> length cs < length s"
  using skip_ws_length [of s] by simp

lemma prepend_Some: "prepend p x = Some (t, r) \<longleftrightarrow> (\<exists>u. x = Some (u, r) \<and> t = p @ u)"
  by (auto simp: prepend_def)

lemma parse_str_length: "parse_str s = Some (t, r) \<Longrightarrow> length r < length s"
proof (induction s arbitrary: t r rule: parse_str.induct)
  case 1
  then show ?case by simp
next
  case (2 c cs)
  show ?case
  proof (cases "c = dquote \<or> c = bslash")
    case True
    then show ?thesis using "2.prems" "2.IH"(1,2,3)
      by (fastforce simp: prepend_Some split: if_splits list.splits option.splits)
  next
    case False
    then show ?thesis using "2.prems" "2.IH"(4)
      by (fastforce simp: prepend_Some split: if_splits)
  qed
qed

lemma digits1_length: "digits1 s = Some (t, r) \<Longrightarrow> length r < length s"
  by (metis digits1_def dropWhile_eq_drop length_append length_greater_0_conv
      less_add_same_cancel2 option.distinct(1) option.inject prod.inject takeWhile_dropWhile_id)

lemma parse_int_length: "parse_int s = Some (t, r) \<Longrightarrow> length r < length s"
  by (auto simp: parse_int_def split: list.splits if_splits dest: digits1_length)

lemma parse_frac_length: "parse_frac s = Some (t, r) \<Longrightarrow> length r \<le> length s"
  by (auto simp: parse_frac_def prepend_Some split: list.splits if_splits dest!: digits1_length)

lemma parse_exp_length: "parse_exp s = Some (t, r) \<Longrightarrow> length r \<le> length s"
  by (auto simp: parse_exp_def prepend_Some split: list.splits if_splits dest!: digits1_length)

lemma parse_num_length: "parse_num s = Some (t, r) \<Longrightarrow> length r < length s"
  by (fastforce simp: parse_num_def split: list.splits option.splits if_splits prod.splits
      dest: parse_int_length parse_frac_length parse_exp_length)

lemma parse_word_length: "parse_word w j s = Some (k, r) \<Longrightarrow> w \<noteq> [] \<Longrightarrow> length r < length s"
  by (auto simp: parse_word_def split: if_splits) 
     (metis diff_less length_greater_0_conv prefix_Nil)

lemmas json_splits = list.splits option.splits if_splits prod.splits

lemma parse_length:
  "parse_value n d s = Some (j, r) \<Longrightarrow> length r < length s"
  "parse_elems n d s = Some (js, r) \<Longrightarrow> length r < length s"
  "parse_members n d s = Some (ms, r) \<Longrightarrow> length r < length s"
proof (induction n d s and n d s and n d s arbitrary: j r and js r and ms r
    rule: parse_value_parse_elems_parse_members.induct)
  case (2 n d s)
  show ?case
  proof (cases "skip_ws s")
    case Nil
    then show ?thesis using "2.prems" by simp
  next
    case (Cons c cs)
    have cs: "length cs < length s" using skip_ws_Cons_length [OF Cons] .
    have w: "length (c # cs) \<le> length s" using cs by simp
    show ?thesis
      using "2.prems" "2.IH" cs w Cons
      by (fastforce dest: parse_str_length parse_num_length parse_word_length skip_ws_Cons_length
          split: json_splits)
  qed
next
  case (4 n d s)
  then show ?case
    by (fastforce dest: skip_ws_Cons_length split: json_splits)
next
  case (6 n d s)
  then show ?case
    by (fastforce dest: skip_ws_Cons_length parse_str_length split: json_splits)
qed simp_all

text \<open>Fuel past twice the length of the input changes nothing, so \<open>parse_fuel\<close> never runs out.\<close>

lemma parse_fuel_irrelevant:
  "2 * length s < n \<Longrightarrow> 2 * length s < m \<Longrightarrow> parse_value n d s = parse_value m d s"
  "2 * length s + 1 < n \<Longrightarrow> 2 * length s + 1 < m \<Longrightarrow> parse_elems n d s = parse_elems m d s"
  "2 * length s + 1 < n \<Longrightarrow> 2 * length s + 1 < m \<Longrightarrow> parse_members n d s = parse_members m d s"
proof (induction n d s and n d s and n d s arbitrary: m and m and m
    rule: parse_value_parse_elems_parse_members.induct)
  case (2 n d s)
  obtain k where m: "m = Suc k" using "2.prems" by (cases m) auto
  show ?case
  proof (cases "skip_ws s")
    case Nil
    then show ?thesis by (simp add: m)
  next
    case (Cons c cs)
    have cs: "length cs < length s" using skip_ws_Cons_length [OF Cons] .
    have E: "parse_elems n (d - 1) cs = parse_elems k (d - 1) cs"
      if "c = CHR ''[''" "d \<noteq> 0" "skip_ws cs = e # es" "e \<noteq> CHR '']''" for e es
      using "2.IH"(1) [OF Cons _ that(1,2,3,4), of k] "2.prems" m cs that(1)
      by (simp add: dquote_def)
    have M: "parse_members n (d - 1) cs = parse_members k (d - 1) cs"
      if "c = CHR ''{''" "d \<noteq> 0" "skip_ws cs = e # es" "e \<noteq> CHR ''}''" for e es
      using "2.IH"(2) [OF Cons _ _ that(1,2,3,4), of k] "2.prems" m cs that(1)
      by (simp add: dquote_def)
    show ?thesis using E M by (simp add: m Cons split: list.split)
  qed
next
  case (4 n d s)
  obtain k where m: "m = Suc k" using "4.prems" by (cases m) auto
  have V: "parse_value n d s = parse_value k d s"
    using "4.IH"(1) [of k] "4.prems" m by simp
  have E: "parse_elems n d es = parse_elems k d es"
    if "parse_value n d s = Some (j, r)" "skip_ws r = e # es" "e = CHR '',''" for j r e es
    using "4.IH"(2) [OF that(1) refl that(2) _ that(3), of k] "4.prems" m that(3)
      parse_length(1) [OF that(1)] skip_ws_Cons_length [OF that(2)] by simp
  show ?case using V E by (auto simp: m split: list.split option.split)
next
  case (6 n d s)
  obtain k where m: "m = Suc k" using "6.prems" by (cases m) auto
  have V: "parse_value n d es = parse_value k d es"
    if "skip_ws s = q # qs" "q = dquote" "parse_str qs = Some (l, r)"
      "skip_ws r = e # es" "e = CHR '':''" for q qs l r e es
    using "6.IH"(1) [OF that(1) _ that(3) refl that(4), of k] "6.prems" m that(2,5)
      skip_ws_Cons_length [OF that(1)] parse_str_length [OF that(3)]
      skip_ws_Cons_length [OF that(4)] by simp
  have M: "parse_members n d xs = parse_members k d xs"
    if "skip_ws s = q # qs" "q = dquote" "parse_str qs = Some (l, r)"
      "skip_ws r = e # es" "e = CHR '':''" "parse_value n d es = Some (v, r2)"
      "skip_ws r2 = x # xs" "x = CHR '',''" for q qs l r e es v r2 x xs
    using "6.IH"(2) [OF that(1) _ that(3) refl that(4) _ that(6) refl that(7), of k]
      "6.prems" m that(2,5,8) skip_ws_Cons_length [OF that(1)] parse_str_length [OF that(3)]
      skip_ws_Cons_length [OF that(4)] parse_length(1) [OF that(6)]
      skip_ws_Cons_length [OF that(7)] by simp
  show ?case using V M by (auto simp: m split: list.split option.split)
qed simp_all

section \<open>Encoding a decoded rune\<close>

lemma chr_byteI: "n = byte c \<Longrightarrow> chr n = c"
  by simp

lemma encode_two:
  assumes "194 \<le> b0" "b0 < 224" "128 \<le> b1" "b1 \<le> 191"
  shows "encode_rune ((b0 - 192) * 64 + (b1 - 128)) = [chr b0, chr b1]"
proof -
  define x y where "x = b0 - 192" and "y = b1 - 128"
  have b: "b0 = x + 192" "b1 = y + 128" "2 \<le> x" "x < 32" "y < 64"
    using assms by (auto simp: x_def y_def)
  have "x * 64 + y < 2048" "128 \<le> x * 64 + y" using b by linarith+
  moreover have "(x * 64 + y) div 64 = x" "(x * 64 + y) mod 64 = y" using b(5) by simp_all
  ultimately show ?thesis by (simp add: b encode_rune_def add.commute)
qed

lemma encode_three:
  assumes "224 \<le> b0" "b0 < 240" "second_ok b0 b1" "128 \<le> b2" "b2 \<le> 191"
  shows "encode_rune ((b0 - 224) * 4096 + (b1 - 128) * 64 + (b2 - 128)) = [chr b0, chr b1, chr b2]"
proof -
  define x y z where "x = b0 - 224" and "y = b1 - 128" and "z = b2 - 128"
  have y: "128 \<le> b1" "b1 \<le> 191" using assms(3) by (auto simp: second_ok_def split: if_splits)
  have b: "b0 = x + 224" "b1 = y + 128" "b2 = z + 128" "x < 16" "y < 64" "z < 64"
    using assms y by (auto simp: x_def y_def z_def)
  have lo: "32 \<le> y" if "x = 0" using assms(3) that by (simp add: second_ok_def b)
  have hi: "y < 32" if "x = 13" using assms(3) that by (simp add: second_ok_def b)
  define r where "r = x * 4096 + y * 64 + z"
  have "2048 \<le> r" using lo b unfolding r_def by (cases "x = 0") auto
  moreover have "r < 65536" using b unfolding r_def by linarith
  moreover have "\<not> (55296 \<le> r \<and> r \<le> 57343)"
    using hi b unfolding r_def by (cases "x < 13"; cases "x = 13") auto
  moreover have "r div 4096 = x" "r div 64 mod 64 = y" "r mod 64 = z"
  proof -
    have r64: "r = (x * 64 + y) * 64 + z" by (simp add: r_def)
    have d: "r div 64 = x * 64 + y" using b(6) by (simp add: r64)
    show "r div 64 mod 64 = y" using b(5) by (simp add: d)
    show "r mod 64 = z" unfolding r64 using b(6) by (simp only: mod_mult_self3 mod_less)
    have "y * 64 + z < 4096" using b by linarith
    then show "r div 4096 = x" by (simp add: r_def add.assoc)
  qed
  ultimately have "encode_rune r = [chr b0, chr b1, chr b2]"
    unfolding encode_rune_def by (auto simp: b add.commute)
  then show ?thesis by (simp add: r_def b)
qed

lemma encode_four:
  assumes "240 \<le> b0" "b0 \<le> 244" "second_ok b0 b1" "128 \<le> b2" "b2 \<le> 191" "128 \<le> b3" "b3 \<le> 191"
  shows "encode_rune ((b0 - 240) * 262144 + (b1 - 128) * 4096 + (b2 - 128) * 64 + (b3 - 128))
    = [chr b0, chr b1, chr b2, chr b3]"
proof -
  define x y z w where "x = b0 - 240" and "y = b1 - 128" and "z = b2 - 128" and "w = b3 - 128"
  have y: "128 \<le> b1" "b1 \<le> 191" using assms(3) by (auto simp: second_ok_def split: if_splits)
  have b: "b0 = x + 240" "b1 = y + 128" "b2 = z + 128" "b3 = w + 128" "x \<le> 4" "y < 64" "z < 64" "w < 64"
    using assms y by (auto simp: x_def y_def z_def w_def)
  have lo: "16 \<le> y" if "x = 0" using assms(3) that by (simp add: second_ok_def b)
  have hi: "y < 16" if "x = 4" using assms(3) that by (simp add: second_ok_def b)
  define r where "r = x * 262144 + y * 4096 + z * 64 + w"
  have "65536 \<le> r" using lo b unfolding r_def by (cases "x = 0") auto
  moreover have "r \<le> 1114111" using hi b unfolding r_def by (cases "x = 4") auto
  moreover have "r div 262144 = x" "r div 4096 mod 64 = y" "r div 64 mod 64 = z" "r mod 64 = w"
  proof -
    have r64: "r = ((x * 64 + y) * 64 + z) * 64 + w" by (simp add: r_def)
    have d1: "r div 64 = (x * 64 + y) * 64 + z" using b(8) by (simp add: r64)
    have "r div 4096 = r div 64 div 64" by (simp flip: div_mult2_eq)
    then have d2: "r div 4096 = x * 64 + y" using b(7) by (simp add: d1)
    have "r div 262144 = r div 4096 div 64" by (simp flip: div_mult2_eq)
    then show "r div 262144 = x" using b(6) by (simp add: d2)
    show "r div 4096 mod 64 = y" using b(6) by (simp add: d2)
    show "r div 64 mod 64 = z" unfolding d1 using b(7) by (simp only: mod_mult_self3 mod_less)
    show "r mod 64 = w" unfolding r64 using b(8) by (simp only: mod_mult_self3 mod_less)
  qed
  ultimately have "encode_rune r = [chr b0, chr b1, chr b2, chr b3]"
    unfolding encode_rune_def by (auto simp: b add.commute)
  then show ?thesis by (simp add: r_def b)
qed

lemma encode_decode:
  assumes "decode_rune s = (r, n)" and "s \<noteq> []" and "\<not> (r = rune_error \<and> n = 1)"
  shows "encode_rune r = take n s"
proof -
  obtain c0 t0 where s: "s = c0 # t0" using assms(2) by (cases s) auto
  consider (one) "byte c0 < 128" "r = byte c0" "n = 1"
    | (two) c1 t1 where "t0 = c1 # t1" "n = 2" "194 \<le> byte c0" "byte c0 < 224" "second_ok (byte c0) (byte c1)"
        "r = (byte c0 - 192) * 64 + (byte c1 - 128)"
    | (three) c1 c2 t2 where "t0 = c1 # c2 # t2" "n = 3" "224 \<le> byte c0" "byte c0 < 240"
        "second_ok (byte c0) (byte c1)" "is_cont c2"
        "r = (byte c0 - 224) * 4096 + (byte c1 - 128) * 64 + (byte c2 - 128)"
    | (four) c1 c2 c3 t3 where "t0 = c1 # c2 # c3 # t3" "n = 4" "240 \<le> byte c0" "byte c0 \<le> 244"
        "second_ok (byte c0) (byte c1)" "is_cont c2" "is_cont c3"
        "r = (byte c0 - 240) * 262144 + (byte c1 - 128) * 4096 + (byte c2 - 128) * 64 + (byte c3 - 128)"
    using assms(1,3) unfolding s decode_rune_def
    by (simp only: list.case split: decode_splits) auto
  then show ?thesis
  proof cases
    case one
    then show ?thesis by (simp add: s encode_rune_def)
  next
    case two
    then have "128 \<le> byte c1" "byte c1 \<le> 191" using second_ok_cont by (simp_all add: is_cont_def)
    then have "encode_rune r = [chr (byte c0), chr (byte c1)]"
      unfolding two(6) using two by (intro encode_two)
    with two show ?thesis by (simp add: s numeral_2_eq_2)
  next
    case three
    then have "encode_rune r = [chr (byte c0), chr (byte c1), chr (byte c2)]"
      unfolding three(7) by (intro encode_three) (simp_all add: is_cont_def)
    with three show ?thesis by (simp add: s numeral_3_eq_3)
  next
    case four
    then have "encode_rune r = [chr (byte c0), chr (byte c1), chr (byte c2), chr (byte c3)]"
      unfolding four(8) by (intro encode_four) (simp_all add: is_cont_def)
    with four show ?thesis by (simp add: s)
  qed
qed

section \<open>Reading back a printed string\<close>

lemma segs_decode:
  "(r, bs) \<in> set (segs s) \<Longrightarrow> bs \<noteq> [] \<and> decode_rune bs = (r, length bs)"
proof (induction s arbitrary: r bs rule: segs.induct)
  case 1
  then show ?case by simp
next
  case (2 c cs)
  obtain q n where qn: "decode_rune (c # cs) = (q, n)" by fastforce
  note size = decode_rune_size [OF qn]
  show ?case
  proof (cases "(r, bs) = (q, take n (c # cs))")
    case True
    show ?thesis
    proof (cases "q = rune_error \<and> n = 1")
      case True
      then have "decode_rune [c] = (q, 1)"
        using qn by (auto simp: decode_rune_def rune_error_def split: if_splits)
      then show ?thesis using True \<open>(r, bs) = _\<close> by simp
    next
      case False
      have "decode_rune (take n (c # cs) @ []) = (q, n)"
        by (rule decode_rune_prefix [OF qn _ False]) simp
      then show ?thesis using True size by auto
    qed
  next
    case False
    then have "(r, bs) \<in> set (segs (drop (n - 1) cs))"
      using "2.prems" by (auto simp: segs.simps(2) qn)
    then show ?thesis using "2.IH" [OF qn [symmetric]] by blast
  qed
qed

lemma hex_value_digit: "k < 16 \<Longrightarrow> hex_value (hex_digit k) = Some k"
  by (simp add: hex_value_def hex_digit_def byte_chr)

lemma hex4_control:
  assumes "r < 256"
  shows "hex4 (CHR ''0'' # CHR ''0'' # hex_digit (r div 16) # hex_digit (r mod 16) # t) = Some r"
proof -
  have "hex_value CHR ''0'' = Some 0" by (simp add: hex_value_def byte_def)
  moreover have "hex_value (hex_digit (r div 16)) = Some (r div 16)"
    using assms by (intro hex_value_digit) simp
  moreover have "hex_value (hex_digit (r mod 16)) = Some (r mod 16)"
    by (intro hex_value_digit) simp
  ultimately show ?thesis by (simp add: hex4_def)
qed

lemma byte_chars [simp]:
  "byte bslash = 92" "byte dquote = 34" "bslash \<noteq> dquote" "dquote \<noteq> bslash"
  by (simp_all add: byte_def bslash_def dquote_def)

declare parse_str.simps(2) [simp del]

lemma parse_str_unicode:
  assumes "hex4 es = Some r" and "\<not> (55296 \<le> r \<and> r \<le> 56319)"
  shows "parse_str (bslash # CHR ''u'' # es) = prepend (encode_rune r) (parse_str (drop 4 es))"
  using assms by (auto simp: parse_str.simps(2))

lemma parse_str_simple:
  assumes "simple_escape e = Some p" and "e \<noteq> CHR ''u''"
  shows "parse_str (bslash # e # es) = prepend p (parse_str es)"
  using assms by (simp add: parse_str.simps(2))

lemma simple_escapes [simp]:
  "simple_escape CHR ''b'' = Some [chr 8]" "simple_escape CHR ''f'' = Some [chr 12]"
  "simple_escape CHR ''n'' = Some [chr 10]" "simple_escape CHR ''r'' = Some [chr 13]"
  "simple_escape CHR ''t'' = Some [chr 9]"
  by (simp_all add: simple_escape_def byte_def)

lemma simple_escape_self:
  assumes "r = 34 \<or> r = 92"
  shows "simple_escape (chr r) = Some [chr r]" "chr r \<noteq> CHR ''u''"
proof -
  show "simple_escape (chr r) = Some [chr r]"
  proof -
    have "byte (chr r) = r" using assms by (intro byte_chr) auto
    then have "byte (chr r) = 34 \<or> byte (chr r) = 92 \<or> byte (chr r) = 47" using assms by auto
    then show ?thesis unfolding simple_escape_def by (rule if_P)
  qed
  have "byte (chr r) \<noteq> byte CHR ''u''" using assms by (auto simp: byte_chr) (auto simp: byte_def)
  then show "chr r \<noteq> CHR ''u''" by auto
qed

lemma parse_str_plain:
  assumes "decode_rune bs = (r, length bs)" and "bs \<noteq> []" and "\<not> (r = rune_error \<and> length bs = 1)"
    and "32 \<le> r" and "r \<noteq> 34" and "r \<noteq> 92"
  shows "parse_str (bs @ t) = prepend bs (parse_str t)"
proof -
  obtain c cs where bs: "bs = c # cs" using assms(2) by (cases bs) auto
  have d: "decode_rune (c # cs @ t) = (r, length bs)"
    using decode_rune_prefix [OF assms(1,2,3), of t] by (simp add: bs)
  have c: "32 \<le> byte c \<and> byte c \<noteq> 34 \<and> byte c \<noteq> 92"
    using assms(1,4,5,6) by (cases "byte c < 128") (auto simp: bs decode_rune_ascii)
  have q: "c \<noteq> dquote" "c \<noteq> bslash" "\<not> byte c < 32" using c by auto
  have e: "encode_rune r = c # cs"
    using encode_decode [OF assms(1,2,3)] by (simp add: bs)
  show ?thesis using q d e by (simp add: bs parse_str.simps(2))
qed

lemma parse_escape_seg:
  assumes "decode_rune bs = (r, length bs)" and "bs \<noteq> []" and "\<not> (r = rune_error \<and> length bs = 1)"
  shows "parse_str (escape_seg (r, bs) @ t) = prepend bs (parse_str t)"
proof -
  have e: "encode_rune r = bs" using encode_decode [OF assms] by simp
  have asc: "bs = [chr r]" if "r < 128" using e that by (simp add: encode_rune_def)
  consider (ls) "r = 8232" | (ps) "r = 8233" | (wide) "128 \<le> r" "r \<noteq> 8232" "r \<noteq> 8233"
    | (letter) "r \<in> {34, 92, 8, 12, 10, 13, 9}"
    | (hex) "r < 32 \<or> r = 60 \<or> r = 62 \<or> r = 38" "r \<notin> {34, 92, 8, 12, 10, 13, 9}"
    | (plain) "32 \<le> r" "r < 128" "r \<notin> {34, 92, 60, 62, 38}"
    by fastforce
  then show ?thesis
  proof cases
    case ls
    have "hex4 (''2028'' @ t) = Some 8232" by (simp add: hex4_def hex_value_def byte_def)
    with ls e show ?thesis by (simp add: escape_seg_def rune_error_def parse_str_unicode)
  next
    case ps
    have "hex4 (''2029'' @ t) = Some 8233" by (simp add: hex4_def hex_value_def byte_def)
    with ps e show ?thesis by (simp add: escape_seg_def rune_error_def parse_str_unicode)
  next
    case wide
    then have "escape_seg (r, bs) = bs" using assms(3) by (auto simp: escape_seg_def)
    then show ?thesis using wide assms by (simp add: parse_str_plain)
  next
    case letter
    then have b: "bs = [chr r]" using asc by auto
    from letter consider "r = 34 \<or> r = 92" | "r \<in> {8, 12, 10, 13, 9}" by auto
    then show ?thesis
    proof cases
      case 1
      then have "escape_seg (r, bs) = [bslash, chr r]" by (auto simp: escape_seg_def rune_error_def)
      then show ?thesis using parse_str_simple simple_escape_self [OF 1] b by simp
    next
      case 2
      then show ?thesis by (auto simp: escape_seg_def rune_error_def parse_str_simple b)
    qed
  next
    case hex
    then have "r < 128" by auto
    with hex asc show ?thesis
      by (auto simp: escape_seg_def rune_error_def parse_str_unicode hex4_control e)
  next
    case plain
    then have "escape_seg (r, bs) = bs" using assms(3) by (auto simp: escape_seg_def)
    then show ?thesis using plain assms by (simp add: parse_str_plain)
  qed
qed

text \<open>An ill-formed byte is printed as the escaped replacement rune.\<close>

lemma parse_escape_ill_formed:
  "parse_str (escape_seg (rune_error, [c]) @ t) = prepend (encode_rune rune_error) (parse_str t)"
proof -
  have "hex4 (''fffd'' @ t) = Some rune_error"
    by (simp add: hex4_def hex_value_def byte_def rune_error_def)
  then show ?thesis by (simp add: escape_seg_def rune_error_def parse_str_unicode)
qed

text \<open>What printing and reading make of a string: its runes, every ill-formed byte replaced.\<close>

definition utf8 :: "string \<Rightarrow> string" where
  "utf8 s = concat (map encode_rune (runes s))"

lemma encode_segs: "(r, bs) \<in> set (segs s) \<Longrightarrow> \<not> (r = rune_error \<and> length bs = 1) \<Longrightarrow> encode_rune r = bs"
  using segs_decode encode_decode by fastforce

lemma utf8_valid: "valid_utf8 s \<Longrightarrow> utf8 s = s"
proof -
  assume v: "valid_utf8 s"
  have "map (\<lambda>g. encode_rune (fst g)) (segs s) = map snd (segs s)"
    using v encode_segs by (auto simp: valid_utf8_def list_all_iff)
  then have "utf8 s = concat (map snd (segs s))" by (simp only: utf8_def runes_def map_map comp_def)
  then show ?thesis by simp
qed

lemma parse_str_escape:
  "parse_str (escape s @ dquote # t) = Some (utf8 s, t)"
proof -
  have "parse_str (concat (map escape_seg sg) @ dquote # t) = Some (concat (map (\<lambda>g. encode_rune (fst g)) sg), t)"
    if "set sg \<subseteq> set (segs s)" for sg
    using that
  proof (induction sg)
    case Nil
    then show ?case by (simp add: parse_str.simps(2))
  next
    case (Cons g sg)
    obtain r bs where g: "g = (r, bs)" by fastforce
    then have seg: "(r, bs) \<in> set (segs s)" using Cons.prems by simp
    then have d: "bs \<noteq> []" "decode_rune bs = (r, length bs)" using segs_decode by blast+
    have "parse_str (escape_seg (r, bs) @ u) = prepend (encode_rune r) (parse_str u)" for u
    proof (cases "r = rune_error \<and> length bs = 1")
      case True
      then obtain c where "bs = [c]" by (auto simp: length_Suc_conv)
      then show ?thesis using True parse_escape_ill_formed by simp
    next
      case False
      then show ?thesis using parse_escape_seg [OF d(2,1)] encode_segs [OF seg] by simp
    qed
    then show ?case using Cons by (simp add: g prepend_def)
  qed
  from this [of "segs s"] show ?thesis by (simp add: escape_def utf8_def runes_def comp_def)
qed

section \<open>Reading back a printed document\<close>

text \<open>
  The documents the program prints have no numbers. Printing and reading one gives it back with
  its strings made well-formed (\<open>sanitize\<close>), and so unchanged when they are (\<open>json_ok\<close>).
\<close>

fun no_numbers :: "json \<Rightarrow> bool" where
  "no_numbers JNull = True"
| "no_numbers (JBool b) = True"
| "no_numbers (JNum n) = False"
| "no_numbers (JStr s) = True"
| "no_numbers (JArr js) = (\<forall>j \<in> set js. no_numbers j)"
| "no_numbers (JObj ms) = (\<forall>(k, j) \<in> set ms. no_numbers j)"

fun sanitize :: "json \<Rightarrow> json" where
  "sanitize (JStr s) = JStr (utf8 s)"
| "sanitize (JArr js) = JArr (map sanitize js)"
| "sanitize (JObj ms) = JObj (map (\<lambda>(k, j). (utf8 k, sanitize j)) ms)"
| "sanitize j = j"

fun json_ok :: "json \<Rightarrow> bool" where
  "json_ok JNull = True"
| "json_ok (JBool b) = True"
| "json_ok (JNum n) = False"
| "json_ok (JStr s) = valid_utf8 s"
| "json_ok (JArr js) = (\<forall>j \<in> set js. json_ok j)"
| "json_ok (JObj ms) = (\<forall>(k, j) \<in> set ms. valid_utf8 k \<and> json_ok j)"

lemma json_ok_sanitize: "json_ok j \<Longrightarrow> no_numbers j \<and> sanitize j = j"
proof (induction j)
  case (JArr js)
  then show ?case by (simp add: map_idI)
next
  case (JObj ms)
  then have "map (\<lambda>(k, j). (utf8 k, sanitize j)) ms = ms"
    by (intro map_idI) (fastforce simp: utf8_valid)
  then show ?case using JObj by fastforce
qed (simp_all add: utf8_valid)

fun nesting :: "json \<Rightarrow> nat" where
  "nesting (JArr js) = Suc (fold max (map nesting js) 0)"
| "nesting (JObj ms) = Suc (fold max (map (\<lambda>(k, j). nesting j) ms) 0)"
| "nesting j = 0"

lemma fold_max_le: "fold max ns m \<le> d \<longleftrightarrow> m \<le> d \<and> (\<forall>n \<in> set ns. n \<le> d)" for m :: nat
  by (induction ns arbitrary: m) auto

lemma skip_ws_plain: "\<not> is_ws c \<Longrightarrow> skip_ws (c # cs) = c # cs"
  by (simp add: skip_ws_def)

lemma not_ws [simp]:
  "\<not> is_ws dquote" "\<not> is_ws CHR ''[''" "\<not> is_ws CHR '']''" "\<not> is_ws CHR ''{''" "\<not> is_ws CHR ''}''"
  "\<not> is_ws CHR '',''" "\<not> is_ws CHR '':''" "\<not> is_ws CHR ''t''" "\<not> is_ws CHR ''f''" "\<not> is_ws CHR ''n''"
  by (simp_all add: is_ws_def byte_def dquote_def)

lemma dquote_not [simp]:
  "CHR ''{'' \<noteq> dquote" "CHR ''['' \<noteq> dquote" "dquote \<noteq> CHR ''}''" "dquote \<noteq> CHR '']''"
  by (simp_all add: dquote_def)

text \<open>The first byte of a printed document is neither white space nor a closing bracket.\<close>

lemma json_text_head:
  assumes "no_numbers j"
  obtains c cs where "json_text j = c # cs" "\<not> is_ws c" "c \<noteq> CHR '']''" "c \<noteq> CHR ''}''"
proof (cases j)
  case (JBool b)
  then show ?thesis using that by (cases b) (auto simp: is_ws_def byte_def)
qed (use assms that in \<open>auto simp: json_quote_def dquote_def is_ws_def byte_def\<close>)

text \<open>\<open>parses_as\<close>: with enough fuel the parser reads the text back, whatever follows it.\<close>

definition parses_as :: "json \<Rightarrow> bool" where
  "parses_as j \<longleftrightarrow> (\<forall>d t. nesting j \<le> d \<longrightarrow>
     (\<exists>n0. \<forall>n \<ge> n0. parse_value n d (json_text j @ t) = Some (sanitize j, t)))"

lemma parse_elems_text:
  assumes "\<forall>j \<in> set js. parses_as j \<and> nesting j \<le> d" and "js \<noteq> []"
  shows "\<exists>n0. \<forall>n \<ge> n0. parse_elems n d (join '','' (map json_text js) @ CHR '']'' # t) = Some (map sanitize js, t)"
  using assms
proof (induction js)
  case Nil
  then show ?case by simp
next
  case (Cons j js)
  have j: "parses_as j" "nesting j \<le> d" using Cons.prems by simp_all
  show ?case
  proof (cases "js = []")
    case True
    obtain n0 where "\<forall>n \<ge> n0. parse_value n d (json_text j @ CHR '']'' # t) = Some (sanitize j, CHR '']'' # t)"
      using j by (force simp: parses_as_def)
    then have "parse_elems n d (json_text j @ CHR '']'' # t) = Some ([sanitize j], t)" if "Suc n0 \<le> n" for n
      using that by (cases n) (simp_all add: skip_ws_plain)
    then show ?thesis using True by auto
  next
    case False
    then obtain i js' where js: "js = i # js'" by (cases js) auto
    let ?s = "join '','' (map json_text js) @ CHR '']'' # t"
    obtain n0 where n0: "\<forall>n \<ge> n0. parse_value n d (json_text j @ CHR '','' # ?s) = Some (sanitize j, CHR '','' # ?s)"
      using j by (force simp: parses_as_def)
    obtain n1 where n1: "\<forall>n \<ge> n1. parse_elems n d ?s = Some (map sanitize js, t)"
      using Cons.IH Cons.prems False by auto
    have "parse_elems n d (json_text j @ CHR '','' # ?s) = Some (map sanitize (j # js), t)" if "Suc (max n0 n1) \<le> n" for n
      using that n0 n1 by (cases n) (simp_all add: skip_ws_plain)
    then show ?thesis by (auto simp: js)
  qed
qed

lemma parse_members_text:
  assumes "\<forall>(k, j) \<in> set ms. parses_as j \<and> nesting j \<le> d" and "ms \<noteq> []"
  shows "\<exists>n0. \<forall>n \<ge> n0. parse_members n d
    (join '','' (map (\<lambda>(k, v). json_quote k @ '':'' @ json_text v) ms) @ CHR ''}'' # t) = Some (map (\<lambda>(k, j). (utf8 k, sanitize j)) ms, t)"
  using assms
proof (induction ms)
  case Nil
  then show ?case by simp
next
  case (Cons m ms)
  obtain k j where m: "m = (k, j)" by fastforce
  have j: "parses_as j" "nesting j \<le> d" using Cons.prems by (auto simp: m)
  have key: "parse_str (escape k @ dquote # u) = Some (utf8 k, u)" for u
    by (rule parse_str_escape)
  show ?case
  proof (cases "ms = []")
    case True
    obtain n0 where n0: "\<forall>n \<ge> n0. parse_value n d (json_text j @ CHR ''}'' # t) = Some (sanitize j, CHR ''}'' # t)"
      using j by (force simp: parses_as_def)
    have "parse_members n d (json_quote k @ '':'' @ json_text j @ CHR ''}'' # t) = Some ([(utf8 k, sanitize j)], t)"
      if "Suc n0 \<le> n" for n
      using that n0 by (cases n) (simp_all add: json_quote_def skip_ws_plain key m)
    then show ?thesis using True by (auto simp: m)
  next
    case False
    then obtain i js' where ms: "ms = i # js'" by (cases ms) auto
    let ?s = "join '','' (map (\<lambda>(k, v). json_quote k @ '':'' @ json_text v) ms) @ CHR ''}'' # t"
    obtain n0 where n0: "\<forall>n \<ge> n0. parse_value n d (json_text j @ CHR '','' # ?s) = Some (sanitize j, CHR '','' # ?s)"
      using j by (force simp: parses_as_def)
    obtain n1 where n1: "\<forall>n \<ge> n1. parse_members n d ?s = Some (map (\<lambda>(k, j). (utf8 k, sanitize j)) ms, t)"
      using Cons.IH Cons.prems False by auto
    have "parse_members n d (json_quote k @ '':'' @ json_text j @ CHR '','' # ?s) = Some ((utf8 k, sanitize j) # map (\<lambda>(k, j). (utf8 k, sanitize j)) ms, t)"
      if "Suc (max n0 n1) \<le> n" for n
      using that n0 n1 by (cases n) (simp_all add: json_quote_def skip_ws_plain key m)
    then show ?thesis by (auto simp: m ms)
  qed
qed

lemma parses_as_array:
  assumes members: "\<forall>j \<in> set js. parses_as j" and plain: "no_numbers (JArr js)"
  shows "parses_as (JArr js)"
  unfolding parses_as_def
proof (intro allI impI)
  fix d t assume d: "nesting (JArr js) \<le> d"
  then obtain d' where d': "d = Suc d'" by (cases d) auto
  show "\<exists>n0. \<forall>n \<ge> n0. parse_value n d (json_text (JArr js) @ t) = Some (sanitize (JArr js), t)"
  proof (cases js)
    case Nil
    then have "\<forall>n \<ge> 1. parse_value n d (json_text (JArr js) @ t) = Some (sanitize (JArr js), t)"
      by (auto simp: skip_ws_plain dquote_def d' dest!: Suc_le_D)
    then show ?thesis by blast
  next
    case (Cons i js')
    let ?s = "join '','' (map json_text js) @ CHR '']'' # t"
    have "\<forall>j \<in> set js. parses_as j \<and> nesting j \<le> d'"
      using members d d' by (auto simp: fold_max_le)
    then obtain n0 where n0: "\<forall>n \<ge> n0. parse_elems n d' ?s = Some (map sanitize js, t)"
      using parse_elems_text Cons by (metis list.distinct(1))
    have "no_numbers i" using plain Cons by simp
    then obtain c cs where c: "json_text i = c # cs" "\<not> is_ws c" "c \<noteq> CHR '']''"
      by (rule json_text_head)
    have s: "\<exists>us. ?s = c # us" using c Cons by (cases js') auto
    have "parse_value n d (json_text (JArr js) @ t) = Some (sanitize (JArr js), t)" if "Suc n0 \<le> n" for n
      using that n0 s c(2,3) by (cases n) (auto simp: skip_ws_plain dquote_def d')
    then show ?thesis by blast
  qed
qed

lemma parses_as_object:
  assumes members: "\<forall>(k, j) \<in> set ms. parses_as j"
  shows "parses_as (JObj ms)"
  unfolding parses_as_def
proof (intro allI impI)
  fix d t assume d: "nesting (JObj ms) \<le> d"
  then obtain d' where d': "d = Suc d'" by (cases d) auto
  let ?m = "\<lambda>(k, v). json_quote k @ '':'' @ json_text v"
  show "\<exists>n0. \<forall>n \<ge> n0. parse_value n d (json_text (JObj ms) @ t) = Some (sanitize (JObj ms), t)"
  proof (cases ms)
    case Nil
    then have "\<forall>n \<ge> 1. parse_value n d (json_text (JObj ms) @ t) = Some (sanitize (JObj ms), t)"
      by (auto simp: skip_ws_plain dquote_def d' dest!: Suc_le_D)
    then show ?thesis by blast
  next
    case (Cons i js')
    let ?s = "join '','' (map ?m ms) @ CHR ''}'' # t"
    have "\<forall>(k, j) \<in> set ms. parses_as j \<and> nesting j \<le> d'"
      using members d d' by (fastforce simp: fold_max_le)
    then obtain n0 where n0: "\<forall>n \<ge> n0. parse_members n d' ?s = Some (map (\<lambda>(k, j). (utf8 k, sanitize j)) ms, t)"
      using parse_members_text [of ms d' t] Cons by auto
    have s: "\<exists>us. ?s = dquote # us"
      using Cons by (cases i; cases js') (auto simp: json_quote_def)
    have "parse_value n d (json_text (JObj ms) @ t) = Some (sanitize (JObj ms), t)" if "Suc n0 \<le> n" for n
      using that n0 s by (cases n) (auto simp: skip_ws_plain d')
    then show ?thesis by blast
  qed
qed

lemma parse_text: "no_numbers j \<Longrightarrow> parses_as j"
proof (induction j)
  case (JStr s)
  have "parse_value n d (json_text (JStr s) @ t) = Some (JStr (utf8 s), t)" if "1 \<le> n" for n d t
    using JStr that by (cases n) (simp_all add: json_quote_def skip_ws_plain parse_str_escape)
  then show ?case unfolding parses_as_def sanitize.simps by blast
next
  case (JArr js)
  then show ?case by (intro parses_as_array) auto
next
  case (JObj ms)
  then show ?case by (intro parses_as_object) fastforce
qed (auto simp: parses_as_def skip_ws_plain dquote_def parse_word_def intro!: exI [of _ 1] dest!: Suc_le_D)

lemma parse_printed:
  assumes "no_numbers j" and "nesting j \<le> d" and "2 * length (json_text j @ t) < n"
  shows "parse_value n d (json_text j @ t) = Some (sanitize j, t)"
proof -
  obtain n0 where n0: "\<forall>n \<ge> n0. parse_value n d (json_text j @ t) = Some (sanitize j, t)"
    using parse_text [OF assms(1)] assms(2) unfolding parses_as_def by blast
  have "parse_value n d (json_text j @ t) = parse_value (max n0 n) d (json_text j @ t)"
    using assms(3) by (intro parse_fuel_irrelevant(1)) simp_all
  then show ?thesis using n0 by simp
qed

lemma json_decode_printed:
  "no_numbers j \<Longrightarrow> nesting j \<le> max_nesting \<Longrightarrow> json_decode (json_text j @ t) = Some (sanitize j)"
  unfolding json_decode_def by (subst parse_printed) (simp_all add: parse_fuel_def)

lemma json_unmarshal_printed:
  "no_numbers j \<Longrightarrow> nesting j \<le> max_nesting \<Longrightarrow> json_unmarshal (json_text j) = Some (sanitize j)"
  unfolding json_unmarshal_def
  using parse_printed [of j max_nesting "[]" "parse_fuel (json_text j)"]
  by (simp add: parse_fuel_def skip_ws_def del: parse_value.simps)

lemma json_decode_text:
  "json_ok j \<Longrightarrow> nesting j \<le> max_nesting \<Longrightarrow> json_decode (json_text j @ t) = Some j"
  using json_ok_sanitize json_decode_printed by metis

lemma json_unmarshal_text:
  "json_ok j \<Longrightarrow> nesting j \<le> max_nesting \<Longrightarrow> json_unmarshal (json_text j) = Some j"
  using json_ok_sanitize json_unmarshal_printed by metis

section \<open>Storing a document into a struct\<close>

text \<open>
  Member names match field names up to Unicode case folding; besides the ASCII letters only
  U+017F and U+212A fold to ASCII (S and K), and all field names here are ASCII.
\<close>

definition fold_rune :: "nat \<Rightarrow> nat" where
  "fold_rune r =
     (if 97 \<le> r \<and> r \<le> 122 then r - 32
      else if r = 383 then 83
      else if r = 8490 then 75
      else r)"

definition fold_name :: "string \<Rightarrow> nat list" where
  "fold_name s = map fold_rune (runes s)"

definition key_is :: "string \<Rightarrow> string \<Rightarrow> bool" where
  "key_is field k \<longleftrightarrow> fold_name k = fold_name field"

text \<open>
  A store returns the new value of the field and whether it met a value of the wrong type, which
  leaves the field as it was and makes the whole decoding report an error at its end.
  \<open>null\<close> leaves a string alone and makes a slice nil.
\<close>

definition dec_string :: "string \<Rightarrow> json \<Rightarrow> string \<times> bool" where
  "dec_string old j = (case j of
       JStr s \<Rightarrow> (s, False)
     | JNull \<Rightarrow> (old, False)
     | _ \<Rightarrow> (old, True))"

text \<open>
  A slice is its elements and the stale ones between its length and its capacity, which a later
  member of the same name can expose again: elements are stored over the old ones.
\<close>

type_synonym slice = "string list \<times> string list"

fun dec_elems :: "string list \<Rightarrow> json list \<Rightarrow> string list \<times> bool" where
  "dec_elems back [] = ([], False)"
| "dec_elems back (j # js) =
     (let (s, e) = dec_string (case back of [] \<Rightarrow> [] | b # bs \<Rightarrow> b) j;
          (ss, es) = dec_elems (tl back) js
      in (s # ss, e \<or> es))"

definition dec_slice :: "slice \<Rightarrow> json \<Rightarrow> slice \<times> bool" where
  "dec_slice old j = (case j of
       JNull \<Rightarrow> (([], []), False)
     | JArr js \<Rightarrow>
         if js = [] then (([], []), False)
         else (let back = fst old @ snd old; (ss, e) = dec_elems back js
               in ((ss, drop (length js) back), e))
     | _ \<Rightarrow> (old, True))"

fun dec_members :: "(string \<Rightarrow> json \<Rightarrow> 'a \<Rightarrow> 'a \<times> bool) \<Rightarrow> (string \<times> json) list \<Rightarrow> 'a \<times> bool \<Rightarrow> 'a \<times> bool" where
  "dec_members store [] (a, e) = (a, e)"
| "dec_members store ((k, j) # ms) (a, e) =
     (let (a', e') = store k j a in dec_members store ms (a', e \<or> e'))"

definition dec_struct :: "(string \<Rightarrow> json \<Rightarrow> 'a \<Rightarrow> 'a \<times> bool) \<Rightarrow> 'a \<Rightarrow> json \<Rightarrow> 'a \<times> bool" where
  "dec_struct store a j = (case j of
       JObj ms \<Rightarrow> dec_members store ms (a, False)
     | JNull \<Rightarrow> (a, False)
     | _ \<Rightarrow> (a, True))"

lemma dec_elems_strings:
  "dec_elems bs (map JStr ss) = (ss, False)"
  by (induction ss arbitrary: bs) (simp_all add: dec_string_def)

lemma dec_slice_strings: "\<exists>st. dec_slice old (JArr (map JStr ss)) = ((ss, st), False)"
  by (cases "ss = []") (auto simp: dec_slice_def dec_elems_strings Let_def)

lemma key_is_refl [simp]: "key_is f f"
  by (simp add: key_is_def)

end
