(* ===== verification/ApiTypes.thy ===== *)
theory ApiTypes
  imports GoJson
begin

text \<open>
  The data of the operator: the \<open>OIDCClient\<close> resource of api/v1alpha1 (spec, status, the object
  metadata the operator reads), the fields of a Kubernetes Secret it reads and writes, the error
  values that flow through the code, and the admission rules of the custom resource definition.
\<close>

section \<open>Errors and messages\<close>

text \<open>
  Text built with \<open>fmt.Sprintf\<close> and \<open>fmt.Errorf\<close> is kept as its format string and arguments; no
  operation of the program reads rendered text. \<open>Errorf\<close> wraps nothing; \<open>Wrapf\<close> has one
  \<open>%w\<close> argument, kept apart from the others. \<open>GoPanic\<close> is a run-time panic.
\<close>

datatype farg = FStr string | FStrs "string list"

datatype kerr = KNotFound | KConflict | KAlreadyExists | KOther string

datatype gerr =
    ErrNotFound
  | ErrSecretConflict
  | ApiError int string string
  | KubeError kerr
  | LibError string
  | Errorf string "farg list"
  | Wrapf string "farg list" gerr
  | GoPanic string

text \<open>\<open>errors.Is\<close>: the target is on the chain of wrapped errors.\<close>

fun errors_is :: "gerr \<Rightarrow> gerr \<Rightarrow> bool" where
  "errors_is (Wrapf f as e) t = (Wrapf f as e = t \<or> errors_is e t)"
| "errors_is e t = (e = t)"

datatype marg = MArg farg | MErr gerr

datatype message = Plain string | Sprintf string "marg list" | ErrText gerr

abbreviation MStr :: "string \<Rightarrow> marg" where
  "MStr s \<equiv> MArg (FStr s)"

section \<open>The custom resource\<close>

type_synonym update_policy = string
type_synonym deletion_policy = string

definition UpdatePolicyRecreate :: update_policy where "UpdatePolicyRecreate = ''Recreate''"
definition UpdatePolicyInPlace :: update_policy where "UpdatePolicyInPlace = ''InPlace''"
definition UpdatePolicyBlock :: update_policy where "UpdatePolicyBlock = ''Block''"

definition DeletionPolicyDeregister :: deletion_policy where
  "DeletionPolicyDeregister = ''Deregister''"
definition DeletionPolicyOrphan :: deletion_policy where
  "DeletionPolicyOrphan = ''Orphan''"

record secret_template =
  tpl_labels :: "string gomap"
  tpl_annotations :: "string gomap"

record oidc_client_spec =
  ClientName :: string
  RedirectURIs :: "string list"
  TokenEndpointAuthMethod :: string
  GrantTypes :: "string list"
  ResponseTypes :: "string list"
  Scope :: string
  ClientURI :: string
  LogoURI :: string
  Contacts :: "string list"
  ApplicationType :: string
  SecretName :: string
  SecretTemplate :: "secret_template option"
  UpdatePolicy :: update_policy
  DeletionPolicy :: deletion_policy

text \<open>\<open>metav1.Condition\<close>; the status is \<open>True\<close>, \<open>False\<close> or \<open>Unknown\<close> as a string.\<close>

record condition =
  c_type :: string
  c_status :: string
  c_reason :: string
  c_message :: message
  c_observed_generation :: int
  c_last_transition_time :: string

record oidc_client_status =
  st_client_id :: string
  st_secret_name :: string
  st_issuer :: string
  st_observed_generation :: int
  st_conditions :: "condition list"

definition ConditionReady :: string where
  "ConditionReady = ''Ready''"

text \<open>The object metadata the operator reads. A zero deletion timestamp is \<open>None\<close>.\<close>

record oidc_client =
  oc_name :: string
  oc_namespace :: string
  oc_uid :: string
  oc_resource_version :: string
  oc_generation :: int
  oc_deletion_timestamp :: "string option"
  oc_finalizers :: "string list"
  oc_annotations :: "string gomap"
  Spec :: oidc_client_spec
  Status :: oidc_client_status

section \<open>Secrets\<close>

record owner_ref =
  ref_kind :: string
  ref_name :: string
  ref_uid :: string
  ref_controller :: "bool option"

text \<open>\<open>s_created\<close> says that the creation timestamp is set.\<close>

record secret =
  s_name :: string
  s_namespace :: string
  s_uid :: string
  s_created :: bool
  s_labels :: "string gomap"
  s_annotations :: "string gomap"
  s_data :: "string gomap"
  s_owner_refs :: "owner_ref list"

text \<open>\<open>string(sec.Data[k])\<close>: a missing key reads as no bytes.\<close>

definition data_of :: "secret \<Rightarrow> string \<Rightarrow> string" where
  "data_of s k = (case gm_get (s_data s) k of None \<Rightarrow> [] | Some v \<Rightarrow> v)"

section \<open>Admission rules\<close>

text \<open>
  The validation markers of \<open>OIDCClientSpec\<close>, which the API server enforces on every stored
  object. Lengths count code points; \<open>lowerAscii\<close> changes ASCII letters only.
\<close>

definition blocked_schemes :: "string list" where
  "blocked_schemes = [''javascript:'', ''data:'', ''file:'', ''vbscript:'', ''about:'', ''blob:'',
     ''filesystem:'', ''chrome:'', ''chrome-extension:'', ''ftp:'', ''mailto:'']"

definition lower_ascii :: "string \<Rightarrow> string" where
  "lower_ascii s = map (\<lambda>c. if 65 \<le> byte c \<and> byte c \<le> 90 then chr (byte c + 32) else c) s"

definition uri_admitted :: "string \<Rightarrow> bool" where
  "uri_admitted u \<longleftrightarrow>
     1 \<le> length (runes u) \<and> length (runes u) \<le> 512
     \<and> \<not> list_ex (\<lambda>p. has_prefix (lower_ascii u) p) blocked_schemes
     \<and> contains u '':''"

definition spec_admitted :: "oidc_client_spec \<Rightarrow> bool" where
  "spec_admitted sp \<longleftrightarrow>
     length (runes (ClientName sp)) \<le> 128 \<and> \<not> contains (ClientName sp) ''[k8s:''
     \<and> 1 \<le> length (RedirectURIs sp) \<and> length (RedirectURIs sp) \<le> 32
     \<and> list_all uri_admitted (RedirectURIs sp)
     \<and> TokenEndpointAuthMethod sp \<in> {''client_secret_basic'', ''client_secret_post'', ''none''}
     \<and> ApplicationType sp \<in> {''web'', ''native''}
     \<and> UpdatePolicy sp \<in> {UpdatePolicyRecreate, UpdatePolicyInPlace, UpdatePolicyBlock}
     \<and> DeletionPolicy sp \<in> {DeletionPolicyDeregister, DeletionPolicyOrphan}"

end
