(* ===== verification/GoUrl.thy ===== *)
theory GoUrl
  imports GoStrings
begin

text \<open>
  What the program uses of \<open>net/url\<close>: percent-encoding of a path segment (\<open>PathEscape\<close>) and of a form
  value (\<open>QueryEscape\<close>), their decoders, and the form encoding of \<open>Values.Encode\<close> with the parser
  behind \<open>ParseForm\<close>. The lemmas show that decoding inverts encoding for arbitrary bytes.
\<close>

section \<open>Percent-encoding\<close>

definition is_alnum :: "char \<Rightarrow> bool" where
  "is_alnum c \<longleftrightarrow>
     (97 \<le> byte c \<and> byte c \<le> 122) \<or> (65 \<le> byte c \<and> byte c \<le> 90) \<or> (48 \<le> byte c \<and> byte c \<le> 57)"

definition upper_hex :: "nat \<Rightarrow> char" where
  "upper_hex n = (if n < 10 then chr (48 + n) else chr (55 + n))"

definition unhex :: "char \<Rightarrow> nat option" where
  "unhex c =
     (if 48 \<le> byte c \<and> byte c \<le> 57 then Some (byte c - 48)
      else if 97 \<le> byte c \<and> byte c \<le> 102 then Some (byte c - 87)
      else if 65 \<le> byte c \<and> byte c \<le> 70 then Some (byte c - 55)
      else None)"

definition percent :: "char \<Rightarrow> string" where
  "percent c = [CHR ''%'', upper_hex (byte c div 16), upper_hex (byte c mod 16)]"

definition path_safe :: "char \<Rightarrow> bool" where
  "path_safe c \<longleftrightarrow> is_alnum c \<or> c \<in> set ''-_.~$&+=:@''"

definition path_escape :: "string \<Rightarrow> string" where
  "path_escape s = concat (map (\<lambda>c. if path_safe c then [c] else percent c) s)"

definition query_safe :: "char \<Rightarrow> bool" where
  "query_safe c \<longleftrightarrow> is_alnum c \<or> c \<in> set ''-_.~''"

definition query_escape :: "string \<Rightarrow> string" where
  "query_escape s =
     concat (map (\<lambda>c. if query_safe c then [c] else if c = CHR '' '' then ''+'' else percent c) s)"

text \<open>Decoding; in a form value a plus sign is a space. A malformed escape is an error.\<close>

fun unescape :: "bool \<Rightarrow> string \<Rightarrow> string option" where
  "unescape pl [] = Some []"
| "unescape pl (c # cs) =
     (if c = CHR ''%'' then
        (case cs of
           a # b # rest \<Rightarrow>
             (case (unhex a, unhex b) of
                (Some i, Some j) \<Rightarrow> map_option (\<lambda>t. chr (16 * i + j) # t) (unescape pl rest)
              | _ \<Rightarrow> None)
         | _ \<Rightarrow> None)
      else if c = CHR ''+'' \<and> pl then map_option (\<lambda>t. CHR '' '' # t) (unescape pl cs)
      else map_option (\<lambda>t. c # t) (unescape pl cs))"

definition path_unescape :: "string \<Rightarrow> string option" where
  "path_unescape = unescape False"

definition query_unescape :: "string \<Rightarrow> string option" where
  "query_unescape = unescape True"

section \<open>Forms\<close>

text \<open>\<open>Values.Encode\<close> on values given in key order; one value per key.\<close>

definition form_encode :: "(string \<times> string) list \<Rightarrow> string" where
  "form_encode kvs = join ''&'' (map (\<lambda>(k, v). query_escape k @ ''='' @ query_escape v) kvs)"

text \<open>\<open>strings.Cut\<close> at the first occurrence of a byte; without one everything is before it.\<close>

definition cut :: "char \<Rightarrow> string \<Rightarrow> string \<times> string" where
  "cut d s = (takeWhile (\<lambda>c. c \<noteq> d) s, tl (dropWhile (\<lambda>c. c \<noteq> d) s))"

text \<open>One field of a form: a semicolon or a malformed escape is an error; an empty field is skipped.\<close>

definition parse_field :: "string \<Rightarrow> (string \<times> string) list option" where
  "parse_field f =
     (if CHR '';'' \<in> set f then None
      else if f = [] then Some []
      else (case (query_unescape (fst (cut CHR ''='' f)), query_unescape (snd (cut CHR ''='' f))) of
              (Some k, Some v) \<Rightarrow> Some [(k, v)]
            | _ \<Rightarrow> None))"

fun parse_fields :: "string list \<Rightarrow> (string \<times> string) list option" where
  "parse_fields [] = Some []"
| "parse_fields (f # fs) =
     (case (parse_field f, parse_fields fs) of
        (Some a, Some b) \<Rightarrow> Some (a @ b)
      | _ \<Rightarrow> None)"

definition parse_form :: "string \<Rightarrow> (string \<times> string) list option" where
  "parse_form body = parse_fields (split_on CHR ''&'' body)"

text \<open>\<open>FormValue\<close>: the first value of the key, or nothing.\<close>

definition form_value :: "(string \<times> string) list \<Rightarrow> string \<Rightarrow> string" where
  "form_value kvs k = (case map_of kvs k of None \<Rightarrow> [] | Some v \<Rightarrow> v)"

section \<open>Decoding inverts encoding\<close>

lemma unhex_upper: "n < 16 \<Longrightarrow> unhex (upper_hex n) = Some n"
  by (simp add: unhex_def upper_hex_def byte_chr)

lemma unescape_percent:
  "unescape pl (percent c @ t) = map_option (\<lambda>u. c # u) (unescape pl t)"
proof -
  have "byte c div 16 < 16" by (rule less_mult_imp_div_less) simp
  moreover have "16 * (byte c div 16) + byte c mod 16 = byte c" by simp
  ultimately show ?thesis by (simp add: percent_def unhex_upper)
qed

lemma unescape_path_escape: "unescape False (path_escape s @ t) = map_option (\<lambda>u. s @ u) (unescape False t)"
proof (induction s)
  case Nil
  then show ?case by (simp add: path_escape_def option.map_ident)
next
  case (Cons c s)
  have step: "path_escape (c # s) = (if path_safe c then [c] else percent c) @ path_escape s"
    by (simp add: path_escape_def)
  have "c \<noteq> CHR ''%''" if "path_safe c"
    using that by (auto simp: path_safe_def is_alnum_def byte_def)
  then show ?case
    using Cons by (simp add: step unescape_percent option.map_comp comp_def del: append.simps)
       (simp add: option.map_comp comp_def)
qed

lemma path_unescape_escape [simp]: "path_unescape (path_escape s) = Some s"
  using unescape_path_escape [of s "[]"] by (simp add: path_unescape_def)

lemma unescape_query_escape: "unescape True (query_escape s) = Some s"
proof (induction s)
  case Nil
  then show ?case by (simp add: query_escape_def)
next
  case (Cons c s)
  have step: "query_escape (c # s) =
      (if query_safe c then [c] else if c = CHR '' '' then ''+'' else percent c) @ query_escape s"
    by (simp add: query_escape_def)
  have "c \<noteq> CHR ''%'' \<and> c \<noteq> CHR ''+''" if "query_safe c"
    using that by (auto simp: query_safe_def is_alnum_def byte_def)
  then show ?case using Cons by (simp add: step unescape_percent)
qed

lemma query_unescape_escape [simp]: "query_unescape (query_escape s) = Some s"
  by (simp add: query_unescape_def unescape_query_escape)

text \<open>Encoded text has none of the delimiters of its context.\<close>

lemma upper_hex_alnum: "n < 16 \<Longrightarrow> is_alnum (upper_hex n)"
  by (auto simp: is_alnum_def upper_hex_def byte_chr)

lemma percent_chars: "set (percent c) \<subseteq> {d. is_alnum d \<or> d = CHR ''%''}"
proof -
  have "byte c div 16 < 16" by (rule less_mult_imp_div_less) simp
  then show ?thesis by (simp add: percent_def upper_hex_alnum)
qed

lemma query_escape_chars: "d \<in> set (query_escape s) \<Longrightarrow> query_safe d \<or> is_alnum d \<or> d = CHR ''%'' \<or> d = CHR ''+''"
  using percent_chars by (induction s) (force simp: query_escape_def split: if_splits)+

lemma delims_unsafe:
  "\<not> query_safe CHR ''&''" "\<not> query_safe CHR ''=''" "\<not> query_safe CHR '';''"
  "\<not> is_alnum CHR ''&''" "\<not> is_alnum CHR ''=''" "\<not> is_alnum CHR '';''"
  "\<not> path_safe CHR ''/''" "\<not> path_safe CHR ''?''" "\<not> path_safe CHR ''#''"
  "\<not> is_alnum CHR ''/''" "\<not> is_alnum CHR ''?''" "\<not> is_alnum CHR ''#''"
  by (simp_all add: query_safe_def path_safe_def is_alnum_def byte_def)

lemma query_escape_no_delim:
  "CHR ''&'' \<notin> set (query_escape s)" "CHR ''='' \<notin> set (query_escape s)" "CHR '';'' \<notin> set (query_escape s)"
  using query_escape_chars [of "CHR ''&''" s] query_escape_chars [of "CHR ''=''" s]
    query_escape_chars [of "CHR '';''" s] delims_unsafe(1-6) by auto

lemma path_escape_chars: "d \<in> set (path_escape s) \<Longrightarrow> path_safe d \<or> is_alnum d \<or> d = CHR ''%''"
  using percent_chars by (induction s) (force simp: path_escape_def split: if_splits)+

lemma path_escape_no_delim:
  "CHR ''/'' \<notin> set (path_escape s)" "CHR ''?'' \<notin> set (path_escape s)" "CHR ''#'' \<notin> set (path_escape s)"
  using path_escape_chars [of "CHR ''/''" s] path_escape_chars [of "CHR ''?''" s]
    path_escape_chars [of "CHR ''#''" s] delims_unsafe(7-) by auto

lemma path_escape_inj: "path_escape s = path_escape t \<longleftrightarrow> s = t"
  by (metis option.inject path_unescape_escape)

lemma cut_append: "d \<notin> set a \<Longrightarrow> cut d (a @ d # b) = (a, b)"
  by (induction a) (auto simp: cut_def)

lemma parse_field_encoded: "parse_field (query_escape k @ ''='' @ query_escape v) = Some [(k, v)]"
  using query_escape_no_delim(3) by (simp add: parse_field_def cut_append query_escape_no_delim(2))

lemma parse_fields_encoded:
  "parse_fields (map (\<lambda>(k, v). query_escape k @ ''='' @ query_escape v) kvs) = Some kvs"
  by (induction kvs) (auto simp: parse_field_encoded [simplified])

lemma parse_form_encode:
  assumes "kvs \<noteq> []"
  shows "parse_form (form_encode kvs) = Some kvs"
proof -
  have "split_on CHR ''&'' (form_encode kvs) = map (\<lambda>(k, v). query_escape k @ ''='' @ query_escape v) kvs"
    unfolding form_encode_def
    by (rule split_join) (use assms query_escape_no_delim(1) in auto)
  then show ?thesis by (simp add: parse_form_def parse_fields_encoded [simplified])
qed

end
