(* ===== verification/TsidpClient.thy ===== *)
theory TsidpClient
  imports ApiTypes GoUrl
begin

text \<open>
  The tsidp HTTP client of internal/tsidp/client.go. An HTTP exchange is a parameter \<open>http\<close>: it takes
  a request and the state of the outside world and returns a transport error or a response (status
  and body) with the new state. Building the request can fail like the exchange itself, so both
  share its error. Each client operation is a function over that parameter: it builds the request,
  interprets status and body, and decodes JSON as \<open>GoJson\<close> describes. Nil and empty slices are
  identified.
\<close>

section \<open>Data\<close>

record http_request =
  rq_method :: string
  rq_url :: string
  rq_content_type :: string
  rq_body :: string

record http_response =
  rs_status :: int
  rs_body :: string

type_synonym 'w http = "http_request \<Rightarrow> 'w \<Rightarrow> (gerr + http_response) \<times> 'w"

record tsidp_client =
  BaseURL :: string

record funnel_client =
  fc_client_id :: string
  fc_client_secret :: string
  fc_client_name :: string
  fc_redirect_uris :: "string list"

record registration_request =
  rr_redirect_uris :: "string list"
  rr_token_endpoint_auth_method :: string
  rr_grant_types :: "string list"
  rr_response_types :: "string list"
  rr_client_name :: string
  rr_client_uri :: string
  rr_logo_uri :: string
  rr_scope :: string
  rr_contacts :: "string list"
  rr_application_type :: string

record provider_metadata =
  pm_issuer :: string
  pm_authorization_endpoint :: string
  pm_token_endpoint :: string
  pm_userinfo_endpoint :: string
  pm_jwks_uri :: string

section \<open>Encoding and decoding of the bodies\<close>

definition json_strings :: "string list \<Rightarrow> json" where
  "json_strings ss = JArr (map JStr ss)"

definition omit_string :: "string \<Rightarrow> string \<Rightarrow> (string \<times> json) list" where
  "omit_string k s = (if s = [] then [] else [(k, JStr s)])"

definition omit_strings :: "string \<Rightarrow> string list \<Rightarrow> (string \<times> json) list" where
  "omit_strings k ss = (if ss = [] then [] else [(k, json_strings ss)])"

definition registration_json :: "registration_request \<Rightarrow> json" where
  "registration_json r = JObj
     ([(''redirect_uris'', json_strings (rr_redirect_uris r))]
      @ omit_string ''token_endpoint_auth_method'' (rr_token_endpoint_auth_method r)
      @ omit_strings ''grant_types'' (rr_grant_types r)
      @ omit_strings ''response_types'' (rr_response_types r)
      @ omit_string ''client_name'' (rr_client_name r)
      @ omit_string ''client_uri'' (rr_client_uri r)
      @ omit_string ''logo_uri'' (rr_logo_uri r)
      @ omit_string ''scope'' (rr_scope r)
      @ omit_strings ''contacts'' (rr_contacts r)
      @ omit_string ''application_type'' (rr_application_type r))"

text \<open>A client object while it is decoded: identifier, secret, name, redirect URI slice.\<close>

type_synonym funnel_state = "string \<times> string \<times> string \<times> slice"

definition store_funnel :: "string \<Rightarrow> json \<Rightarrow> funnel_state \<Rightarrow> funnel_state \<times> bool" where
  "store_funnel k j fs = (case fs of (i, s, n, u) \<Rightarrow>
     if key_is ''client_id'' k then (let (x, e) = dec_string i j in ((x, s, n, u), e))
     else if key_is ''client_secret'' k then (let (x, e) = dec_string s j in ((i, x, n, u), e))
     else if key_is ''client_name'' k then (let (x, e) = dec_string n j in ((i, s, x, u), e))
     else if key_is ''redirect_uris'' k then (let (x, e) = dec_slice u j in ((i, s, n, x), e))
     else (fs, False))"

definition decode_funnel :: "json \<Rightarrow> funnel_client \<times> bool" where
  "decode_funnel j =
     (let ((i, s, n, u), e) = dec_struct store_funnel ([], [], [], ([], [])) j
      in (\<lparr>fc_client_id = i, fc_client_secret = s, fc_client_name = n, fc_redirect_uris = fst u\<rparr>, e))"

definition decode_funnels :: "json \<Rightarrow> funnel_client list \<times> bool" where
  "decode_funnels j = (case j of
       JArr js \<Rightarrow> (map (\<lambda>x. fst (decode_funnel x)) js, list_ex (\<lambda>x. snd (decode_funnel x)) js)
     | JNull \<Rightarrow> ([], False)
     | _ \<Rightarrow> ([], True))"

definition store_metadata :: "string \<Rightarrow> json \<Rightarrow> provider_metadata \<Rightarrow> provider_metadata \<times> bool" where
  "store_metadata k j p =
     (if key_is ''issuer'' k
      then (let (x, e) = dec_string (pm_issuer p) j in (p\<lparr>pm_issuer := x\<rparr>, e))
      else if key_is ''authorization_endpoint'' k
      then (let (x, e) = dec_string (pm_authorization_endpoint p) j in (p\<lparr>pm_authorization_endpoint := x\<rparr>, e))
      else if key_is ''token_endpoint'' k
      then (let (x, e) = dec_string (pm_token_endpoint p) j in (p\<lparr>pm_token_endpoint := x\<rparr>, e))
      else if key_is ''userinfo_endpoint'' k
      then (let (x, e) = dec_string (pm_userinfo_endpoint p) j in (p\<lparr>pm_userinfo_endpoint := x\<rparr>, e))
      else if key_is ''jwks_uri'' k
      then (let (x, e) = dec_string (pm_jwks_uri p) j in (p\<lparr>pm_jwks_uri := x\<rparr>, e))
      else (p, False))"

definition decode_metadata :: "json \<Rightarrow> provider_metadata \<times> bool" where
  "decode_metadata j = dec_struct store_metadata
     \<lparr>pm_issuer = [], pm_authorization_endpoint = [], pm_token_endpoint = [],
      pm_userinfo_endpoint = [], pm_jwks_uri = []\<rparr> j"

text \<open>\<open>json.NewDecoder(body).Decode(&v)\<close>: a syntax error or a value of the wrong type is an error.\<close>

definition decode_body :: "(json \<Rightarrow> 'a \<times> bool) \<Rightarrow> string \<Rightarrow> gerr + 'a" where
  "decode_body dec body = (case json_decode body of
       None \<Rightarrow> Inl (LibError ''json'')
     | Some j \<Rightarrow> (let (v, e) = dec j in if e then Inl (LibError ''json'') else Inr v))"

section \<open>Errors\<close>

text \<open>
  The fields of \<open>apiError\<close> as \<open>Unmarshal\<close> sees them: \<open>Status\<close> has no tag, so a member named
  \<open>status\<close> in any case is stored into it. An integer field takes integer literals in the range of
  64 bits.
\<close>

definition digit_value :: "char \<Rightarrow> int" where
  "digit_value c = int (byte c) - 48"

definition int64_of :: "string \<Rightarrow> int option" where
  "int64_of t =
     (let neg = (t \<noteq> [] \<and> hd t = CHR ''-''); ds = (if neg then tl t else t);
          v = fold (\<lambda>c n. 10 * n + digit_value c) ds 0; i = (if neg then - v else v)
      in if ds \<noteq> [] \<and> list_all is_digit ds \<and> - (2 ^ 63) \<le> i \<and> i < 2 ^ 63 then Some i else None)"

definition dec_int :: "int \<Rightarrow> json \<Rightarrow> int \<times> bool" where
  "dec_int old j = (case j of
       JNum t \<Rightarrow> (case int64_of t of Some i \<Rightarrow> (i, False) | None \<Rightarrow> (old, True))
     | JNull \<Rightarrow> (old, False)
     | _ \<Rightarrow> (old, True))"

definition store_api_error :: "string \<Rightarrow> json \<Rightarrow> int \<times> string \<times> string \<Rightarrow> (int \<times> string \<times> string) \<times> bool" where
  "store_api_error k j ae = (case ae of (st, c, d) \<Rightarrow>
     if key_is ''Status'' k then (let (x, e) = dec_int st j in ((x, c, d), e))
     else if key_is ''error'' k then (let (x, e) = dec_string c j in ((st, x, d), e))
     else if key_is ''error_description'' k then (let (x, e) = dec_string d j in ((st, c, x), e))
     else (ae, False))"

definition err_from_response :: "http_response \<Rightarrow> gerr" where
  "err_from_response resp =
     (if rs_status resp = 404 then ErrNotFound
      else let b = take 4096 (rs_body resp);
               ((st, c, d), err) = (case json_unmarshal b of
                   None \<Rightarrow> ((rs_status resp, [], []), True)
                 | Some j \<Rightarrow> dec_struct store_api_error (rs_status resp, [], []) j)
           in ApiError st c (if err \<or> c = [] then trim_space b else d))"

section \<open>Operations\<close>

definition do_request ::
  "'w http \<Rightarrow> tsidp_client \<Rightarrow> string \<Rightarrow> string \<Rightarrow> string \<Rightarrow> string \<Rightarrow> 'w \<Rightarrow> (gerr + http_response) \<times> 'w" where
  "do_request http c method path body ctype w =
     http \<lparr>rq_method = method, rq_url = BaseURL c @ path, rq_content_type = ctype, rq_body = body\<rparr> w"

definition register :: "'w http \<Rightarrow> tsidp_client \<Rightarrow> registration_request \<Rightarrow> 'w \<Rightarrow> (gerr + funnel_client) \<times> 'w" where
  "register http c reg w =
     (case do_request http c ''POST'' ''/register'' (json_text (registration_json reg)) ''application/json'' w of
        (Inl err, w') \<Rightarrow> (Inl err, w')
      | (Inr resp, w') \<Rightarrow>
          if rs_status resp \<noteq> 201 then (Inl (err_from_response resp), w')
          else (case decode_body decode_funnel (rs_body resp) of
              Inl err \<Rightarrow> (Inl (Wrapf ''tsidp: decoding /register response: %w'' [] err), w')
            | Inr fc \<Rightarrow>
                if fc_client_id fc = [] \<or> fc_client_secret fc = []
                then (Inl (Errorf ''tsidp: /register response missing client_id or client_secret'' []), w')
                else (Inr fc, w')))"

definition list_clients :: "'w http \<Rightarrow> tsidp_client \<Rightarrow> 'w \<Rightarrow> (gerr + funnel_client list) \<times> 'w" where
  "list_clients http c w =
     (case do_request http c ''GET'' ''/clients/'' [] [] w of
        (Inl err, w') \<Rightarrow> (Inl err, w')
      | (Inr resp, w') \<Rightarrow>
          if rs_status resp \<noteq> 200 then (Inl (err_from_response resp), w')
          else (case decode_body decode_funnels (rs_body resp) of
              Inl err \<Rightarrow> (Inl (Wrapf ''tsidp: decoding /clients/ response: %w'' [] err), w')
            | Inr out \<Rightarrow> (Inr out, w')))"

definition get_client :: "'w http \<Rightarrow> tsidp_client \<Rightarrow> string \<Rightarrow> 'w \<Rightarrow> (gerr + funnel_client) \<times> 'w" where
  "get_client http c cid w =
     (case do_request http c ''GET'' (''/clients/'' @ path_escape cid) [] [] w of
        (Inl err, w') \<Rightarrow> (Inl err, w')
      | (Inr resp, w') \<Rightarrow>
          if rs_status resp \<noteq> 200 then (Inl (err_from_response resp), w')
          else (case decode_body decode_funnel (rs_body resp) of
              Inl err \<Rightarrow> (Inl (Wrapf ''tsidp: decoding /clients/{id} response: %w'' [] err), w')
            | Inr fc \<Rightarrow> (Inr fc, w')))"

definition delete_client :: "'w http \<Rightarrow> tsidp_client \<Rightarrow> string \<Rightarrow> 'w \<Rightarrow> gerr option \<times> 'w" where
  "delete_client http c cid w =
     (case do_request http c ''DELETE'' (''/clients/'' @ path_escape cid) [] [] w of
        (Inl err, w') \<Rightarrow> (Some err, w')
      | (Inr resp, w') \<Rightarrow>
          if rs_status resp \<noteq> 204 \<and> rs_status resp \<noteq> 200 then (Some (err_from_response resp), w')
          else (None, w'))"

definition normalize_uris :: "string list \<Rightarrow> string list" where
  "normalize_uris us = filter (\<lambda>u. u \<noteq> []) (map trim_space us)"

definition same_set :: "string list \<Rightarrow> string list \<Rightarrow> bool" where
  "same_set a b = (if length a \<noteq> length b then False else sort a = sort b)"

definition update_client ::
  "'w http \<Rightarrow> tsidp_client \<Rightarrow> string \<Rightarrow> string \<Rightarrow> string list \<Rightarrow> 'w \<Rightarrow> gerr option \<times> 'w" where
  "update_client http c cid name0 redirectURIs w =
     (let name = trim_space name0; uris = normalize_uris redirectURIs;
          form = form_encode [(''name'', name), (''redirect_uris'', join [CHR 0x0A] uris)]
      in case do_request http c ''POST'' (''/edit/'' @ path_escape cid) form
                ''application/x-www-form-urlencoded'' w of
           (Inl err, w') \<Rightarrow> (Some err, w')
         | (Inr resp, w') \<Rightarrow>
             if 400 \<le> rs_status resp then (Some (ApiError (rs_status resp) [] ''update via /edit failed''), w')
             else (case get_client http c cid w' of
                 (Inl err, w'') \<Rightarrow> (Some (Wrapf ''tsidp: verifying update of %s: %w'' [FStr cid] err), w'')
               | (Inr got, w'') \<Rightarrow>
                   if fc_client_name got \<noteq> name \<or> \<not> same_set (fc_redirect_uris got) uris
                   then (Some (Errorf
                      (''tsidp: update of client %s did not converge (server rejected it, ''
                       @ ''e.g. a redirect URI scheme tsidp's UI validation forbids); remote name=%q uris=%v'')
                      [FStr cid, FStr (fc_client_name got), FStrs (fc_redirect_uris got)]), w'')
                   else (None, w'')))"

definition discovery :: "'w http \<Rightarrow> tsidp_client \<Rightarrow> 'w \<Rightarrow> (gerr + provider_metadata) \<times> 'w" where
  "discovery http c w =
     (case do_request http c ''GET'' ''/.well-known/openid-configuration'' [] [] w of
        (Inl err, w') \<Rightarrow> (Inl err, w')
      | (Inr resp, w') \<Rightarrow>
          if rs_status resp \<noteq> 200 then (Inl (err_from_response resp), w')
          else (case decode_body decode_metadata (rs_body resp) of
              Inl err \<Rightarrow> (Inl (Wrapf ''tsidp: decoding discovery document: %w'' [] err), w')
            | Inr pm \<Rightarrow>
                if pm_issuer pm = [] then (Inl (Errorf ''tsidp: discovery document missing issuer'' []), w')
                else (Inr pm, w')))"

section \<open>What the operations guarantee for any server\<close>

lemma same_set_mset: "same_set a b \<longleftrightarrow> mset a = mset b"
  by (auto simp: same_set_def sort_eq_iff_mset dest: mset_eq_length)

lemma register_complete:
  "register http c reg w = (Inr fc, w') \<Longrightarrow> fc_client_id fc \<noteq> [] \<and> fc_client_secret fc \<noteq> []"
  by (auto simp: register_def split: prod.splits sum.splits if_splits)

lemma discovery_issuer: "discovery http c w = (Inr pm, w') \<Longrightarrow> pm_issuer pm \<noteq> []"
  by (auto simp: discovery_def split: prod.splits sum.splits if_splits)

lemma update_client_verified:
  assumes "update_client http c cid name uris w = (None, w')"
  obtains w1 got where "get_client http c cid w1 = (Inr got, w')"
    and "fc_client_name got = trim_space name"
    and "mset (fc_redirect_uris got) = mset (normalize_uris uris)"
  using assms
  by (auto simp: update_client_def Let_def same_set_mset split: prod.splits sum.splits if_splits)

lemma err_from_response_not_found:
  "err_from_response resp = ErrNotFound \<longleftrightarrow> rs_status resp = 404"
  by (auto simp: err_from_response_def Let_def case_prod_beta)

text \<open>Normalising is the identity on non-empty URIs without space runes.\<close>

lemma normalize_uris_id:
  assumes "\<And>u r. u \<in> set us \<Longrightarrow> r \<in> set (runes u) \<Longrightarrow> \<not> is_space r"
    and "\<And>u. u \<in> set us \<Longrightarrow> u \<noteq> []"
  shows "normalize_uris us = us"
proof -
  have "map trim_space us = us"
    using assms(1) by (intro map_idI trim_space_id)
  then show ?thesis using assms(2) by (simp add: normalize_uris_def)
qed

end
