(* ===== verification/SecretContent.thy ===== *)
theory SecretContent
  imports TsidpClient
begin

text \<open>
  What the reconciler writes into a credentials Secret: the labels and annotations of the user's
  template (\<open>applySecretTemplate\<close>), with the record of the applied keys kept as JSON in an annotation,
  and the data derived from the discovery document (\<open>setSecretMetadata\<close>). A write to a nil map
  panics, so both functions return an option; the lemmas show that they never panic, describe the
  result key by key, and show that keys dropped from the template disappear from the Secret.
\<close>

definition templateKeysAnnotation :: string where
  "templateKeysAnnotation = ''tsidp.isvaldi-consulting.github.io/template-keys''"

section \<open>The record of applied keys\<close>

record applied_template_keys =
  atk_labels :: "string list"
  atk_annotations :: "string list"

definition template_keys_json :: "applied_template_keys \<Rightarrow> json" where
  "template_keys_json k =
     JObj (omit_strings ''labels'' (atk_labels k) @ omit_strings ''annotations'' (atk_annotations k))"

definition store_template_keys :: "string \<Rightarrow> json \<Rightarrow> slice \<times> slice \<Rightarrow> (slice \<times> slice) \<times> bool" where
  "store_template_keys k j st = (case st of (l, a) \<Rightarrow>
     if key_is ''labels'' k then (let (x, e) = dec_slice l j in ((x, a), e))
     else if key_is ''annotations'' k then (let (x, e) = dec_slice a j in ((l, x), e))
     else (st, False))"

text \<open>\<open>_ = json.Unmarshal(raw, &prev)\<close>: on an error what was stored before it is kept.\<close>

definition unmarshal_template_keys :: "string \<Rightarrow> applied_template_keys" where
  "unmarshal_template_keys raw =
     (let (l, a) = (case json_unmarshal raw of
            None \<Rightarrow> (([], []), ([], []))
          | Some j \<Rightarrow> fst (dec_struct store_template_keys (([], []), ([], [])) j))
      in \<lparr>atk_labels = fst l, atk_annotations = fst a\<rparr>)"

section \<open>Applying a template\<close>

fun remove_stale :: "string list \<Rightarrow> string gomap \<Rightarrow> string gomap \<Rightarrow> string gomap" where
  "remove_stale [] cur m = m"
| "remove_stale (k # ks) cur m =
     remove_stale ks cur (if gm_get cur k = None then gm_delete k m else m)"

fun apply_entries ::
  "(string \<times> string) list \<Rightarrow> string gomap \<Rightarrow> string list \<Rightarrow> (string gomap \<times> string list) option" where
  "apply_entries [] m ks = Some (m, ks)"
| "apply_entries ((k, v) # es) m ks =
     (case gm_put k v (gm_ensure m) of
        None \<Rightarrow> None
      | Some m' \<Rightarrow> apply_entries es m' (ks @ [k]))"

definition template_labels :: "secret_template option \<Rightarrow> string gomap" where
  "template_labels tpl = (case tpl of None \<Rightarrow> Some [] | Some t \<Rightarrow> tpl_labels t)"

definition template_annotations :: "secret_template option \<Rightarrow> string gomap" where
  "template_annotations tpl = (case tpl of None \<Rightarrow> Some [] | Some t \<Rightarrow> tpl_annotations t)"

definition previous_keys :: "secret \<Rightarrow> applied_template_keys" where
  "previous_keys sec = (case gm_get (s_annotations sec) templateKeysAnnotation of
       None \<Rightarrow> \<lparr>atk_labels = [], atk_annotations = []\<rparr>
     | Some raw \<Rightarrow> unmarshal_template_keys raw)"

definition apply_secret_template :: "secret \<Rightarrow> secret_template option \<Rightarrow> secret option" where
  "apply_secret_template sec tpl =
     (let prev = previous_keys sec;
          curLabels = template_labels tpl;
          curAnnotations = template_annotations tpl;
          labels1 = remove_stale (atk_labels prev) curLabels (s_labels sec);
          annotations1 = remove_stale (atk_annotations prev) curAnnotations (s_annotations sec)
      in case apply_entries (gm_entries curLabels) labels1 [] of
           None \<Rightarrow> None
         | Some (labels2, ls) \<Rightarrow>
        (case apply_entries (gm_entries curAnnotations) annotations1 [] of
           None \<Rightarrow> None
         | Some (annotations2, as) \<Rightarrow>
             if sort ls = [] \<and> sort as = []
             then Some (sec\<lparr>s_labels := labels2,
                            s_annotations := gm_delete templateKeysAnnotation annotations2\<rparr>)
             else (case gm_put templateKeysAnnotation
                          (json_text (template_keys_json \<lparr>atk_labels = sort ls, atk_annotations = sort as\<rparr>))
                          (gm_ensure annotations2) of
                     None \<Rightarrow> None
                   | Some annotations3 \<Rightarrow>
                       Some (sec\<lparr>s_labels := labels2, s_annotations := annotations3\<rparr>))))"

section \<open>The data derived from discovery\<close>

fun gm_puts :: "(string \<times> 'v) list \<Rightarrow> 'v gomap \<Rightarrow> 'v gomap option" where
  "gm_puts [] m = Some m"
| "gm_puts ((k, v) # es) m = (case gm_put k v m of None \<Rightarrow> None | Some m' \<Rightarrow> gm_puts es m')"

definition metadata_entries :: "provider_metadata \<Rightarrow> string list \<Rightarrow> (string \<times> string) list" where
  "metadata_entries disc redirectURIs =
     [(''issuer'', pm_issuer disc),
      (''discovery_endpoint'', trim_suffix (pm_issuer disc) ''/'' @ ''/.well-known/openid-configuration''),
      (''authorization_endpoint'', pm_authorization_endpoint disc),
      (''token_endpoint'', pm_token_endpoint disc),
      (''userinfo_endpoint'', pm_userinfo_endpoint disc),
      (''jwks_uri'', pm_jwks_uri disc),
      (''redirect_uris'', join [CHR 0x0A] redirectURIs)]"

definition set_secret_metadata :: "secret \<Rightarrow> provider_metadata \<Rightarrow> string list \<Rightarrow> secret option" where
  "set_secret_metadata s disc redirectURIs =
     map_option (\<lambda>d. s\<lparr>s_data := d\<rparr>)
       (gm_puts (metadata_entries disc redirectURIs) (gm_ensure (s_data s)))"

section \<open>Effect on each key\<close>

lemma gm_get_remove_stale:
  "gm_get (remove_stale ks cur m) k = (if k \<in> set ks \<and> gm_get cur k = None then None else gm_get m k)"
  by (induction ks arbitrary: m) auto

lemma gm_puts_total: "\<exists>m'. gm_puts es (gm_ensure m) = Some m'"
proof -
  have "\<exists>m'. gm_puts es (Some al) = Some m'" for al :: "(string \<times> 'a) list"
    by (induction es arbitrary: al) auto
  then show ?thesis by (metis gm_ensure_Some)
qed

lemma gm_get_puts:
  "gm_puts es m = Some m' \<Longrightarrow> distinct (map fst es) \<Longrightarrow>
   gm_get m' k = (case map_of es k of None \<Rightarrow> gm_get m k | Some v \<Rightarrow> Some v)"
proof (induction es arbitrary: m)
  case Nil
  then show ?case by simp
next
  case (Cons e es)
  obtain j v where e: "e = (j, v)" by fastforce
  obtain m1 where m1: "gm_put j v m = Some m1" using Cons.prems e by (auto split: option.splits)
  then have "gm_puts es m1 = Some m'" using Cons.prems e by simp
  then have "gm_get m' k = (case map_of es k of None \<Rightarrow> gm_get m1 k | Some v \<Rightarrow> Some v)"
    using Cons by (simp add: e)
  moreover have "k = j \<Longrightarrow> map_of es k = None"
    using Cons.prems(2) by (simp add: e map_of_eq_None_iff)
  ultimately show ?case using gm_get_put [OF m1, of k] by (auto simp: e split: option.split)
qed

lemma apply_entries_total: "\<exists>m'. apply_entries es m ks = Some (m', ks @ map fst es)"
proof (induction es arbitrary: m ks)
  case (Cons e es)
  obtain k v where e: "e = (k, v)" by fastforce
  obtain m1 where "gm_put k v (gm_ensure m) = Some m1" using gm_put_ensure by (metis not_None_eq)
  then show ?case using Cons [of m1 "ks @ [k]"] by (simp add: e)
qed simp

lemma gm_get_apply_entries:
  "apply_entries es m ks = Some (m', ks') \<Longrightarrow> distinct (map fst es) \<Longrightarrow>
   gm_get m' k = (case map_of es k of None \<Rightarrow> gm_get m k | Some v \<Rightarrow> Some v)"
proof (induction es arbitrary: m ks)
  case Nil
  then show ?case by simp
next
  case (Cons e es)
  obtain j v where e: "e = (j, v)" by fastforce
  obtain m1 where m1: "gm_put j v (gm_ensure m) = Some m1"
    using gm_put_ensure by (metis not_None_eq)
  then have "apply_entries es m1 (ks @ [j]) = Some (m', ks')" using Cons.prems e by simp
  then have "gm_get m' k = (case map_of es k of None \<Rightarrow> gm_get m1 k | Some v \<Rightarrow> Some v)"
    using Cons by (simp add: e)
  moreover have "k = j \<Longrightarrow> map_of es k = None"
    using Cons.prems(2) by (simp add: e map_of_eq_None_iff)
  ultimately show ?case using gm_get_put [OF m1, of k] by (auto simp: e split: option.split)
qed

lemma map_of_entries: "map_of (gm_entries m) k = gm_get m k"
  by (cases m) (simp_all add: gm_entries_def)

lemma fst_entries: "map fst (gm_entries m) = gm_keys m"
  by (cases m) (simp_all add: gm_entries_def gm_keys_def)

text \<open>
  The annotation that records the applied keys, and the resulting annotations and labels. A
  template's maps list every key once.
\<close>

definition template_wf :: "secret_template option \<Rightarrow> bool" where
  "template_wf tpl \<longleftrightarrow> gm_wf (template_labels tpl) \<and> gm_wf (template_annotations tpl)"

definition keys_of_template :: "secret_template option \<Rightarrow> applied_template_keys" where
  "keys_of_template tpl =
     \<lparr>atk_labels = sort (gm_keys (template_labels tpl)),
      atk_annotations = sort (gm_keys (template_annotations tpl))\<rparr>"

definition no_template_keys :: applied_template_keys where
  "no_template_keys = \<lparr>atk_labels = [], atk_annotations = []\<rparr>"

definition converged :: "string list \<Rightarrow> string gomap \<Rightarrow> string gomap \<Rightarrow> string \<Rightarrow> string option" where
  "converged prev cur old k =
     (case gm_get cur k of
        Some v \<Rightarrow> Some v
      | None \<Rightarrow> if k \<in> set prev then None else gm_get old k)"

lemma sort_Nil_iff: "sort xs = [] \<longleftrightarrow> xs = []"
  by (metis length_0_conv length_sort)

lemma apply_secret_template_effect:
  assumes "template_wf tpl"
  shows "\<exists>sec'. apply_secret_template sec tpl = Some sec'
    \<and> sec'\<lparr>s_labels := s_labels sec, s_annotations := s_annotations sec\<rparr> = sec
    \<and> (\<forall>k. gm_get (s_labels sec') k
          = converged (atk_labels (previous_keys sec)) (template_labels tpl) (s_labels sec) k)
    \<and> (\<forall>k. k \<noteq> templateKeysAnnotation \<longrightarrow> gm_get (s_annotations sec') k
          = converged (atk_annotations (previous_keys sec)) (template_annotations tpl) (s_annotations sec) k)
    \<and> gm_get (s_annotations sec') templateKeysAnnotation
          = (if keys_of_template tpl = no_template_keys then None
             else Some (json_text (template_keys_json (keys_of_template tpl))))"
proof -
  let ?L = "template_labels tpl" and ?A = "template_annotations tpl" and ?p = "previous_keys sec"
  let ?l = "remove_stale (atk_labels ?p) ?L (s_labels sec)"
  let ?a = "remove_stale (atk_annotations ?p) ?A (s_annotations sec)"
  obtain l2 where l2: "apply_entries (gm_entries ?L) ?l [] = Some (l2, gm_keys ?L)"
    using apply_entries_total [of "gm_entries ?L" ?l "[]"] by (auto simp: fst_entries)
  obtain a2 where a2: "apply_entries (gm_entries ?A) ?a [] = Some (a2, gm_keys ?A)"
    using apply_entries_total [of "gm_entries ?A" ?a "[]"] by (auto simp: fst_entries)
  have gl: "gm_get l2 k = converged (atk_labels ?p) ?L (s_labels sec) k" for k
    using gm_get_apply_entries [OF l2, of k] assms
    by (auto simp: template_wf_def gm_wf_def fst_entries map_of_entries gm_get_remove_stale
        converged_def split: option.split)
  have ga: "gm_get a2 k = converged (atk_annotations ?p) ?A (s_annotations sec) k" for k
    using gm_get_apply_entries [OF a2, of k] assms
    by (auto simp: template_wf_def gm_wf_def fst_entries map_of_entries gm_get_remove_stale
        converged_def split: option.split)
  have empty: "keys_of_template tpl = no_template_keys \<longleftrightarrow> sort (gm_keys ?L) = [] \<and> sort (gm_keys ?A) = []"
    by (simp add: keys_of_template_def no_template_keys_def)
  show ?thesis
  proof (cases "keys_of_template tpl = no_template_keys")
    case True
    then have "apply_secret_template sec tpl = Some (sec\<lparr>s_labels := l2,
        s_annotations := gm_delete templateKeysAnnotation a2\<rparr>)"
      using l2 a2 empty by (simp add: apply_secret_template_def Let_def)
    then show ?thesis using True gl ga by simp
  next
    case False
    obtain a3 where a3: "gm_put templateKeysAnnotation
        (json_text (template_keys_json (keys_of_template tpl))) (gm_ensure a2) = Some a3"
      using gm_put_ensure by (metis not_None_eq)
    then have "apply_secret_template sec tpl = Some (sec\<lparr>s_labels := l2, s_annotations := a3\<rparr>)"
      using l2 a2 empty False by (auto simp: apply_secret_template_def Let_def keys_of_template_def)
    then show ?thesis using False gl ga gm_get_put [OF a3] by simp
  qed
qed

section \<open>The record of keys round-trips\<close>

lemma template_keys_json_ok:
  assumes "list_all valid_utf8 (atk_labels k)" and "list_all valid_utf8 (atk_annotations k)"
  shows "json_ok (template_keys_json k)"
  using assms by (auto simp: template_keys_json_def omit_strings_def json_strings_def list_all_iff
      intro!: ascii_valid_utf8 simp: byte_def)

lemma nesting_strings: "nesting (json_strings ss) = 1"
proof -
  have "fold max (map nesting (map JStr ss)) 0 = 0"
    by (induction ss) simp_all
  then show ?thesis by (simp add: json_strings_def)
qed

lemma template_keys_nesting: "nesting (template_keys_json k) \<le> 2"
  by (simp add: template_keys_json_def omit_strings_def nesting_strings)

lemma key_is_template_fields [simp]:
  "\<not> key_is ''labels'' ''annotations''" "\<not> key_is ''annotations'' ''labels''"
  by (simp_all add: key_is_def fold_name_def ascii_runes byte_def fold_rune_def)

lemma unmarshal_marshal_template_keys:
  assumes "list_all valid_utf8 (atk_labels k)" and "list_all valid_utf8 (atk_annotations k)"
  shows "unmarshal_template_keys (json_text (template_keys_json k)) = k"
proof -
  have "json_unmarshal (json_text (template_keys_json k)) = Some (template_keys_json k)"
    using template_keys_json_ok [OF assms] template_keys_nesting [of k]
    by (intro json_unmarshal_text) (simp_all add: max_nesting_def)
  moreover obtain sl where "dec_slice ([], []) (json_strings (atk_labels k)) = ((atk_labels k, sl), False)"
    using dec_slice_strings unfolding json_strings_def by blast
  moreover obtain sa where "dec_slice ([], []) (json_strings (atk_annotations k)) = ((atk_annotations k, sa), False)"
    using dec_slice_strings unfolding json_strings_def by blast
  ultimately show ?thesis
    by (cases k) (auto simp: unmarshal_template_keys_def template_keys_json_def omit_strings_def
        dec_struct_def store_template_keys_def)
qed

section \<open>Metadata\<close>

lemma metadata_entries_distinct: "distinct (map fst (metadata_entries disc uris))"
  by (simp add: metadata_entries_def)

lemma set_secret_metadata_effect:
  "\<exists>s'. set_secret_metadata s disc uris = Some s' \<and> s'\<lparr>s_data := s_data s\<rparr> = s
    \<and> (\<forall>k. gm_get (s_data s') k = (case map_of (metadata_entries disc uris) k of
           None \<Rightarrow> gm_get (s_data s) k | Some v \<Rightarrow> Some v))"
proof -
  obtain d where d: "gm_puts (metadata_entries disc uris) (gm_ensure (s_data s)) = Some d"
    using gm_puts_total by blast
  then show ?thesis
    using gm_get_puts [OF d metadata_entries_distinct]
    by (simp add: set_secret_metadata_def cong: option.case_cong)
qed

lemma metadata_not_credentials:
  "map_of (metadata_entries disc uris) ''client_id'' = None"
  "map_of (metadata_entries disc uris) ''client_secret'' = None"
  by (simp_all add: metadata_entries_def)

end
