(* ===== verification/Effects.thy ===== *)
theory Effects
  imports SecretContent
begin

text \<open>
  The reconciler's interface to the outside world. A handler is a \<open>prog\<close>: a tree of the calls it makes
  to the Kubernetes API, the event recorder and the tsidp client, each with a continuation over
  every possible answer. An environment answers the calls (\<open>run\<close>); nothing is assumed of it, so a
  theorem about every environment covers every answer, error and change by other actors between
  two calls. \<open>spec\<close> is the rule for proving such theorems: it computes, along the program text, the
  condition that every call obeys a guard on the calls made before it and that the result obeys a
  postcondition on the whole history.
\<close>

record recorded_event =
  ev_type :: string
  ev_reason :: string
  ev_message :: message

text \<open>
  \<open>ReadSecret\<close> is \<open>APIReader.Get\<close>, past the cache. \<open>DeleteSecret\<close> names the object and the UID its
  precondition pins. \<open>UpsertSecret\<close> is \<open>controllerutil.CreateOrUpdate\<close> on the object of that namespace
  and name, with its mutate function: the library applies the function to the Secret it finds, or to
  an empty one, and writes what the function returns unless it returns an error.
\<close>

datatype 'a prog =
    Ret 'a
  | GetOIDC string string "kerr + oidc_client \<Rightarrow> 'a prog"
  | UpdateOIDC oidc_client "kerr + oidc_client \<Rightarrow> 'a prog"
  | UpdateStatus oidc_client "kerr + oidc_client \<Rightarrow> 'a prog"
  | ReadSecret string string "kerr + secret \<Rightarrow> 'a prog"
  | DeleteSecret secret string "kerr option \<Rightarrow> 'a prog"
  | UpsertSecret string string "secret \<Rightarrow> gerr + secret" "gerr option \<Rightarrow> 'a prog"
  | Emit recorded_event "unit \<Rightarrow> 'a prog"
  | Discovery "gerr + provider_metadata \<Rightarrow> 'a prog"
  | ListClients "gerr + funnel_client list \<Rightarrow> 'a prog"
  | Register registration_request "gerr + funnel_client \<Rightarrow> 'a prog"
  | GetClient string "gerr + funnel_client \<Rightarrow> 'a prog"
  | DeleteClient string "gerr option \<Rightarrow> 'a prog"
  | UpdateClient string string "string list" "gerr option \<Rightarrow> 'a prog"

primrec bind :: "'a prog \<Rightarrow> ('a \<Rightarrow> 'b prog) \<Rightarrow> 'b prog" where
  "bind (Ret a) f = f a"
| "bind (GetOIDC ns n k) f = GetOIDC ns n (\<lambda>r. bind (k r) f)"
| "bind (UpdateOIDC oc k) f = UpdateOIDC oc (\<lambda>r. bind (k r) f)"
| "bind (UpdateStatus oc k) f = UpdateStatus oc (\<lambda>r. bind (k r) f)"
| "bind (ReadSecret ns n k) f = ReadSecret ns n (\<lambda>r. bind (k r) f)"
| "bind (DeleteSecret s u k) f = DeleteSecret s u (\<lambda>r. bind (k r) f)"
| "bind (UpsertSecret ns n m k) f = UpsertSecret ns n m (\<lambda>r. bind (k r) f)"
| "bind (Emit e k) f = Emit e (\<lambda>r. bind (k r) f)"
| "bind (Discovery k) f = Discovery (\<lambda>r. bind (k r) f)"
| "bind (ListClients k) f = ListClients (\<lambda>r. bind (k r) f)"
| "bind (Register q k) f = Register q (\<lambda>r. bind (k r) f)"
| "bind (GetClient i k) f = GetClient i (\<lambda>r. bind (k r) f)"
| "bind (DeleteClient i k) f = DeleteClient i (\<lambda>r. bind (k r) f)"
| "bind (UpdateClient i n us k) f = UpdateClient i n us (\<lambda>r. bind (k r) f)"

section \<open>Running a program against an environment\<close>

text \<open>A call with the answer it got; a run leaves the list of its calls in order.\<close>

datatype call =
    CGetOIDC string string "kerr + oidc_client"
  | CUpdateOIDC oidc_client "kerr + oidc_client"
  | CUpdateStatus oidc_client "kerr + oidc_client"
  | CReadSecret string string "kerr + secret"
  | CDeleteSecret secret string "kerr option"
  | CUpsertSecret string string "secret \<Rightarrow> gerr + secret" "gerr option"
  | CEmit recorded_event
  | CDiscovery "gerr + provider_metadata"
  | CListClients "gerr + funnel_client list"
  | CRegister registration_request "gerr + funnel_client"
  | CGetClient string "gerr + funnel_client"
  | CDeleteClient string "gerr option"
  | CUpdateClient string string "string list" "gerr option"

record 'w env =
  e_get_oidc :: "string \<Rightarrow> string \<Rightarrow> 'w \<Rightarrow> (kerr + oidc_client) \<times> 'w"
  e_update_oidc :: "oidc_client \<Rightarrow> 'w \<Rightarrow> (kerr + oidc_client) \<times> 'w"
  e_update_status :: "oidc_client \<Rightarrow> 'w \<Rightarrow> (kerr + oidc_client) \<times> 'w"
  e_read_secret :: "string \<Rightarrow> string \<Rightarrow> 'w \<Rightarrow> (kerr + secret) \<times> 'w"
  e_delete_secret :: "secret \<Rightarrow> string \<Rightarrow> 'w \<Rightarrow> kerr option \<times> 'w"
  e_upsert_secret :: "string \<Rightarrow> string \<Rightarrow> (secret \<Rightarrow> gerr + secret) \<Rightarrow> 'w \<Rightarrow> gerr option \<times> 'w"
  e_emit :: "recorded_event \<Rightarrow> 'w \<Rightarrow> 'w"
  e_discovery :: "'w \<Rightarrow> (gerr + provider_metadata) \<times> 'w"
  e_list_clients :: "'w \<Rightarrow> (gerr + funnel_client list) \<times> 'w"
  e_register :: "registration_request \<Rightarrow> 'w \<Rightarrow> (gerr + funnel_client) \<times> 'w"
  e_get_client :: "string \<Rightarrow> 'w \<Rightarrow> (gerr + funnel_client) \<times> 'w"
  e_delete_client :: "string \<Rightarrow> 'w \<Rightarrow> gerr option \<times> 'w"
  e_update_client :: "string \<Rightarrow> string \<Rightarrow> string list \<Rightarrow> 'w \<Rightarrow> gerr option \<times> 'w"

definition log_call :: "call \<Rightarrow> 'a \<times> 'w \<times> call list \<Rightarrow> 'a \<times> 'w \<times> call list" where
  "log_call c = (\<lambda>(a, w, t). (a, w, c # t))"

primrec run :: "'w env \<Rightarrow> 'a prog \<Rightarrow> 'w \<Rightarrow> 'a \<times> 'w \<times> call list" where
  "run E (Ret a) w = (a, w, [])"
| "run E (GetOIDC ns n k) w =
     (let (r, w') = e_get_oidc E ns n w in log_call (CGetOIDC ns n r) (run E (k r) w'))"
| "run E (UpdateOIDC oc k) w =
     (let (r, w') = e_update_oidc E oc w in log_call (CUpdateOIDC oc r) (run E (k r) w'))"
| "run E (UpdateStatus oc k) w =
     (let (r, w') = e_update_status E oc w in log_call (CUpdateStatus oc r) (run E (k r) w'))"
| "run E (ReadSecret ns n k) w =
     (let (r, w') = e_read_secret E ns n w in log_call (CReadSecret ns n r) (run E (k r) w'))"
| "run E (DeleteSecret s u k) w =
     (let (r, w') = e_delete_secret E s u w in log_call (CDeleteSecret s u r) (run E (k r) w'))"
| "run E (UpsertSecret ns n m k) w =
     (let (r, w') = e_upsert_secret E ns n m w in log_call (CUpsertSecret ns n m r) (run E (k r) w'))"
| "run E (Emit e k) w = log_call (CEmit e) (run E (k ()) (e_emit E e w))"
| "run E (Discovery k) w =
     (let (r, w') = e_discovery E w in log_call (CDiscovery r) (run E (k r) w'))"
| "run E (ListClients k) w =
     (let (r, w') = e_list_clients E w in log_call (CListClients r) (run E (k r) w'))"
| "run E (Register q k) w =
     (let (r, w') = e_register E q w in log_call (CRegister q r) (run E (k r) w'))"
| "run E (GetClient i k) w =
     (let (r, w') = e_get_client E i w in log_call (CGetClient i r) (run E (k r) w'))"
| "run E (DeleteClient i k) w =
     (let (r, w') = e_delete_client E i w in log_call (CDeleteClient i r) (run E (k r) w'))"
| "run E (UpdateClient i n us k) w =
     (let (r, w') = e_update_client E i n us w in log_call (CUpdateClient i n us r) (run E (k r) w'))"

section \<open>Guards on calls and conditions on results\<close>

text \<open>
  \<open>spec G h p Q\<close>: after the history \<open>h\<close>, whatever the answers, every call of \<open>p\<close> satisfies the guard \<open>G\<close>
  on the history before it, and a result with its full history satisfies \<open>Q\<close>.
\<close>

primrec spec :: "(call list \<Rightarrow> call \<Rightarrow> bool) \<Rightarrow> 'a prog \<Rightarrow> call list \<Rightarrow> ('a \<Rightarrow> call list \<Rightarrow> bool) \<Rightarrow> bool" where
  "spec G (Ret a) h Q = Q a h"
| "spec G (GetOIDC ns n k) h Q = (\<forall>r. let c = CGetOIDC ns n r in G h c \<and> spec G (k r) (h @ [c]) Q)"
| "spec G (UpdateOIDC oc k) h Q = (\<forall>r. let c = CUpdateOIDC oc r in G h c \<and> spec G (k r) (h @ [c]) Q)"
| "spec G (UpdateStatus oc k) h Q = (\<forall>r. let c = CUpdateStatus oc r in G h c \<and> spec G (k r) (h @ [c]) Q)"
| "spec G (ReadSecret ns n k) h Q = (\<forall>r. let c = CReadSecret ns n r in G h c \<and> spec G (k r) (h @ [c]) Q)"
| "spec G (DeleteSecret s u k) h Q = (\<forall>r. let c = CDeleteSecret s u r in G h c \<and> spec G (k r) (h @ [c]) Q)"
| "spec G (UpsertSecret ns n m k) h Q =
     (\<forall>r. let c = CUpsertSecret ns n m r in G h c \<and> spec G (k r) (h @ [c]) Q)"
| "spec G (Emit e k) h Q = (G h (CEmit e) \<and> spec G (k ()) (h @ [CEmit e]) Q)"
| "spec G (Discovery k) h Q = (\<forall>r. let c = CDiscovery r in G h c \<and> spec G (k r) (h @ [c]) Q)"
| "spec G (ListClients k) h Q = (\<forall>r. let c = CListClients r in G h c \<and> spec G (k r) (h @ [c]) Q)"
| "spec G (Register q k) h Q = (\<forall>r. let c = CRegister q r in G h c \<and> spec G (k r) (h @ [c]) Q)"
| "spec G (GetClient i k) h Q = (\<forall>r. let c = CGetClient i r in G h c \<and> spec G (k r) (h @ [c]) Q)"
| "spec G (DeleteClient i k) h Q = (\<forall>r. let c = CDeleteClient i r in G h c \<and> spec G (k r) (h @ [c]) Q)"
| "spec G (UpdateClient i n us k) h Q =
     (\<forall>r. let c = CUpdateClient i n us r in G h c \<and> spec G (k r) (h @ [c]) Q)"

lemma spec_bind [simp]: "spec G (bind p f) h Q = spec G p h (\<lambda>a h'. spec G (f a) h' Q)"
  by (induction p arbitrary: h) (simp_all add: Let_def)

lemma spec_mono:
  "spec G p h Q \<Longrightarrow> (\<And>a h'. Q a h' \<Longrightarrow> Q' a h') \<Longrightarrow> spec G p h Q'"
  by (induction p arbitrary: h) (simp_all add: Let_def)

lemma spec_guard_mono:
  "spec G p h Q \<Longrightarrow> (\<And>h c. G h c \<Longrightarrow> G' h c) \<Longrightarrow> spec G' p h Q"
  by (induction p arbitrary: h) (simp_all add: Let_def)

text \<open>A condition a guard keeps true along the history.\<close>

lemma spec_strengthen:
  assumes "spec G p h Q" and "I h" and "\<And>h c. I h \<Longrightarrow> G h c \<Longrightarrow> I (h @ [c])"
  shows "spec G p h (\<lambda>a h'. Q a h' \<and> I h')"
  using assms(1,2)
proof (induction p arbitrary: h)
  case (Ret a)
  then show ?case by simp
qed (simp_all add: Let_def assms(3))

text \<open>The guard read off a finished list of calls.\<close>

fun obeys :: "(call list \<Rightarrow> call \<Rightarrow> bool) \<Rightarrow> call list \<Rightarrow> call list \<Rightarrow> bool" where
  "obeys G h [] = True"
| "obeys G h (c # t) = (G h c \<and> obeys G (h @ [c]) t)"

lemma obeys_split: "obeys G h (t1 @ c # t2) \<Longrightarrow> G (h @ t1) c"
proof (induction t1 arbitrary: h)
  case (Cons a t1)
  then show ?case using Cons.IH [of "h @ [a]"] by simp
qed simp

lemma spec_run_aux:
  "spec G p h Q \<Longrightarrow>
   obeys G h (snd (snd (run E p w))) \<and> Q (fst (run E p w)) (h @ snd (snd (run E p w)))"
proof (induction p arbitrary: h w)
  case (Ret x)
  then show ?case by simp
qed (fastforce simp: Let_def log_call_def case_prod_beta)+

lemma spec_run:
  assumes "spec G p [] Q" and "run E p w = (a, w', t)"
  shows "Q a t" and "t = t1 @ c # t2 \<Longrightarrow> G t1 c"
  using spec_run_aux [OF assms(1), of E w] obeys_split [of G "[]" t1 c t2] by (auto simp: assms(2))

lemma run_bind:
  "run E (bind p f) w =
     (let (a, w1, t1) = run E p w; (b, w2, t2) = run E (f a) w1 in (b, w2, t1 @ t2))"
  by (induction p arbitrary: w) (simp_all add: log_call_def case_prod_beta Let_def)

end
