(* ===== verification/Naming.thy ===== *)
theory Naming
  imports ApiTypes
begin

text \<open>
  The names the reconciler derives from an \<open>OIDCClient\<close> (fingerprint, display name, registered name,
  Secret name) and the comparison of redirect URI lists. The lemmas show that the fingerprint
  identifies its object: the registered name of one object contains the fingerprint of another
  only when both have the same namespace, name and UID prefix; and that the registered name is a
  fixed point of the trimming tsidp applies to it.
\<close>

definition fingerprint :: "oidc_client \<Rightarrow> string" where
  "fingerprint oc =
     ''[k8s:'' @ oc_namespace oc @ ''/'' @ oc_name oc @ ''/'' @ take_runes 8 (oc_uid oc) @ '']''"

definition display_name :: "oidc_client \<Rightarrow> string" where
  "display_name oc =
     (let name = trim_space (ClientName (Spec oc)) in if name = [] then oc_name oc else name)"

definition registered_name :: "oidc_client \<Rightarrow> string" where
  "registered_name oc = display_name oc @ '' '' @ fingerprint oc"

definition secret_name :: "oidc_client \<Rightarrow> string" where
  "secret_name oc =
     (if SecretName (Spec oc) \<noteq> [] then SecretName (Spec oc) else oc_name oc @ ''-oidc'')"

definition same_string_set :: "string list \<Rightarrow> string list \<Rightarrow> bool" where
  "same_string_set a b = (if length a \<noteq> length b then False else sort a = sort b)"

section \<open>Comparing URI lists\<close>

lemma same_string_set_mset: "same_string_set a b \<longleftrightarrow> mset a = mset b"
  by (auto simp: same_string_set_def sort_eq_iff_mset dest: mset_eq_length)

lemma same_string_set_refl [simp]: "same_string_set a a"
  by (simp add: same_string_set_mset)

section \<open>Fingerprints identify objects\<close>

text \<open>
  What Kubernetes guarantees of metadata: names, namespaces and UIDs are non-empty ASCII without
  white space, slashes or brackets.
\<close>

definition plain_char :: "char \<Rightarrow> bool" where
  "plain_char c \<longleftrightarrow> 33 \<le> byte c \<and> byte c < 127 \<and> c \<notin> set ''[]/''"

definition plain_metadata :: "oidc_client \<Rightarrow> bool" where
  "plain_metadata oc \<longleftrightarrow>
     oc_name oc \<noteq> [] \<and> list_all plain_char (oc_name oc)
     \<and> list_all plain_char (oc_namespace oc) \<and> list_all plain_char (oc_uid oc)"

lemma trim_left_suffix: "suffix (trim_left s) s"
proof (induction s rule: trim_left.induct)
  case (2 c cs)
  obtain r n where rn: "decode_rune (c # cs) = (r, n)" by fastforce
  show ?case
  proof (cases "is_space r")
    case True
    then have "suffix (trim_left (drop (n - 1) cs)) (drop (n - 1) cs)" using "2" rn by simp
    then have "suffix (trim_left (drop (n - 1) cs)) (c # cs)"
      by (meson suffix_ConsI suffix_drop suffix_order.trans)
    then show ?thesis using True by (simp add: rn)
  qed (simp add: rn)
qed simp

lemma trim_space_sublist: "\<exists>a b. s = a @ trim_space s @ b"
proof -
  obtain a where "s = a @ trim_left s" using trim_left_suffix by (auto simp: suffix_def)
  moreover obtain b where "trim_left s = trim_space s @ b"
    using trim_right_prefix by (auto simp: trim_space_def prefix_def)
  ultimately show ?thesis by metis
qed

lemma contains_trim_space: "contains (trim_space s) t \<Longrightarrow> contains s t"
proof -
  assume "contains (trim_space s) t"
  then obtain a b where "trim_space s = a @ t @ b" by (auto simp: contains_iff)
  moreover obtain c d where "s = c @ trim_space s @ d" using trim_space_sublist by blast
  ultimately have "s = (c @ a) @ t @ (b @ d)" by simp
  then show ?thesis unfolding contains_iff by blast
qed

lemma plain_no_special: "list_all plain_char s \<Longrightarrow> CHR ''['' \<notin> set s \<and> CHR '']'' \<notin> set s \<and> CHR ''/'' \<notin> set s"
  by (induction s) (auto simp: plain_char_def)

lemma take_runes_plain: "list_all plain_char s \<Longrightarrow> list_all plain_char (take_runes n s)"
  by (metis list_all_append prefix_def take_runes_prefix)

lemma display_name_no_marker:
  assumes "plain_metadata oc" and "\<not> contains (ClientName (Spec oc)) ''[k8s:''"
  shows "\<not> contains (display_name oc) ''[k8s:''"
proof (cases "trim_space (ClientName (Spec oc)) = []")
  case True
  have "CHR ''['' \<notin> set (oc_name oc)"
    using assms(1) plain_no_special by (simp add: plain_metadata_def)
  then show ?thesis using True by (auto simp: display_name_def contains_iff)
next
  case False
  then show ?thesis using assms(2) contains_trim_space by (auto simp: display_name_def)
qed

text \<open>An occurrence of the marker after a marker-free text and a space starts after the space.\<close>

lemma marker_after_space:
  assumes "d @ '' '' @ t = a @ ''[k8s:'' @ b" and "\<not> contains d ''[k8s:''"
  shows "\<exists>a'. a = d @ '' '' @ a'"
proof -
  have "d @ CHR '' '' # t = a @ ''[k8s:'' @ b" using assms(1) by simp
  then consider u where "d = a @ u" "u @ CHR '' '' # t = ''[k8s:'' @ b"
    | u where "a = d @ u" "CHR '' '' # t = u @ ''[k8s:'' @ b"
    unfolding append_eq_append_conv2 by fastforce
  then show ?thesis
  proof cases
    case 1
    consider v where "u = ''[k8s:'' @ v" | v where "''[k8s:'' = u @ v" "CHR '' '' # t = v @ b"
      using 1(2) unfolding append_eq_append_conv2 by fastforce
    then have False
    proof cases
      case (1 v)
      then show False using assms(2) \<open>d = a @ u\<close> by (auto simp: contains_iff)
    next
      case (2 v)
      show False
      proof (cases v)
        case Nil
        then have "d = a @ ''[k8s:'' @ []" using 2 \<open>d = a @ u\<close> by simp
        then show False using assms(2) unfolding contains_iff by blast
      next
        case (Cons x xs)
        then have "CHR '' '' \<in> set (u @ v)" using 2(2) by simp
        then have "CHR '' '' \<in> set ''[k8s:''" using 2(1) by simp
        then show False by simp
      qed
    qed
    then show ?thesis ..
  next
    case 2
    then show ?thesis by (cases u) auto
  qed
qed

lemma fingerprint_body:
  assumes "plain_metadata oc"
  defines "body \<equiv> ''k8s:'' @ oc_namespace oc @ ''/'' @ oc_name oc @ ''/'' @ take_runes 8 (oc_uid oc)"
  shows "CHR ''['' \<notin> set body" and "CHR '']'' \<notin> set body"
  using assms(1) plain_no_special take_runes_plain
  unfolding plain_metadata_def body_def by fastforce+

lemma append_delim_eq:
  assumes "a @ d # b = a' @ d # b'" and "d \<notin> set a" and "d \<notin> set a'"
  shows "a = a' \<and> b = b'"
  using assms by (induction a arbitrary: a') (auto simp: Cons_eq_append_conv append_eq_Cons_conv)

lemma fingerprint_inj:
  assumes "plain_metadata oc" and "plain_metadata oc'" and "fingerprint oc = fingerprint oc'"
  shows "oc_namespace oc = oc_namespace oc' \<and> oc_name oc = oc_name oc'
    \<and> take_runes 8 (oc_uid oc) = take_runes 8 (oc_uid oc')"
proof -
  note p = assms(1,2)[unfolded plain_metadata_def]
  have 1: "oc_namespace oc @ CHR ''/'' # oc_name oc @ CHR ''/'' # take_runes 8 (oc_uid oc)
    = oc_namespace oc' @ CHR ''/'' # oc_name oc' @ CHR ''/'' # take_runes 8 (oc_uid oc')"
    using assms(3) by (simp add: fingerprint_def)
  have 2: "oc_namespace oc = oc_namespace oc' \<and> oc_name oc @ CHR ''/'' # take_runes 8 (oc_uid oc)
    = oc_name oc' @ CHR ''/'' # take_runes 8 (oc_uid oc')"
    by (rule append_delim_eq [OF 1]) (use p plain_no_special in auto)
  have 3: "oc_name oc = oc_name oc' \<and> take_runes 8 (oc_uid oc) = take_runes 8 (oc_uid oc')"
    by (rule append_delim_eq [OF conjunct2 [OF 2]]) (use p plain_no_special in auto)
  from 2 3 show ?thesis by simp
qed

lemma registered_name_contains: "contains (registered_name oc) (fingerprint oc)"
  unfolding registered_name_def using contains_append_right [of "display_name oc @ '' ''"] by simp

lemma contains_fingerprint_iff:
  assumes "plain_metadata oc" and "plain_metadata oc'" and "\<not> contains (ClientName (Spec oc')) ''[k8s:''"
  shows "contains (registered_name oc') (fingerprint oc) \<longleftrightarrow> fingerprint oc = fingerprint oc'"
proof
  assume "contains (registered_name oc') (fingerprint oc)"
  then obtain a b where ab: "display_name oc' @ '' '' @ fingerprint oc' = a @ fingerprint oc @ b"
    by (auto simp: contains_iff registered_name_def)
  then obtain u where "display_name oc' @ '' '' @ fingerprint oc' = a @ ''[k8s:'' @ u"
    by (auto simp: fingerprint_def)
  from marker_after_space [OF this display_name_no_marker [OF assms(2,3)]]
  obtain a' where "a = display_name oc' @ '' '' @ a'" by blast
  with ab have eq: "fingerprint oc' = a' @ fingerprint oc @ b" by simp
  define m where "m o' = ''k8s:'' @ oc_namespace o' @ ''/'' @ oc_name o' @ ''/'' @ take_runes 8 (oc_uid o')"
    for o' :: oidc_client
  have fp: "fingerprint o' = CHR ''['' # m o' @ [CHR '']'']" for o'
    by (simp add: fingerprint_def m_def)
  have no: "CHR ''['' \<notin> set (m oc')" "CHR '']'' \<notin> set (m oc')" "CHR '']'' \<notin> set (m oc)"
    using fingerprint_body [OF assms(1)] fingerprint_body [OF assms(2)] unfolding m_def by blast+
  have "a' = []"
  proof (cases a')
    case (Cons x xs)
    then have "CHR ''['' \<in> set (m oc' @ [CHR '']''])" using eq by (simp add: fp)
    then show ?thesis using no(1) by simp
  qed simp
  then have "fingerprint oc' = fingerprint oc @ b" using eq by simp
  then have "m oc' @ CHR '']'' # [] = m oc @ CHR '']'' # b" by (simp add: fp)
  from append_delim_eq [OF this no(2,3)] have "b = []" by simp
  then show "fingerprint oc = fingerprint oc'" using \<open>fingerprint oc' = fingerprint oc @ b\<close> by simp
next
  assume "fingerprint oc = fingerprint oc'"
  then show "contains (registered_name oc') (fingerprint oc)" using registered_name_contains by simp
qed

section \<open>The registered name survives trimming\<close>

lemma plain_head_not_space:
  assumes "list_all plain_char s" and "s \<noteq> []"
  shows "\<not> is_space (fst (decode_rune s))"
  using assms by (cases s) (auto simp: decode_rune_ascii plain_char_def is_space_def)

lemma registered_name_trimmed:
  assumes "plain_metadata oc"
  shows "trim_space (registered_name oc) = registered_name oc"
proof (rule trim_space_ends)
  let ?d = "display_name oc"
  have d: "?d \<noteq> [] \<and> \<not> is_space (fst (decode_rune ?d))"
    using trim_space_head [of "ClientName (Spec oc)"] plain_head_not_space assms
    by (auto simp: display_name_def Let_def plain_metadata_def)
  have "decode_rune (registered_name oc) = decode_rune ?d"
    unfolding registered_name_def by (rule decode_rune_append) (use d in \<open>auto simp: is_cont_def byte_def\<close>)
  with d show "\<not> is_space (fst (decode_rune (registered_name oc)))" by simp
  have "registered_name oc = (?d @ '' [k8s:'' @ oc_namespace oc @ ''/'' @ oc_name oc @ ''/''
      @ take_runes 8 (oc_uid oc)) @ [CHR '']'']"
    by (simp add: registered_name_def fingerprint_def)
  then have "decode_last_rune (registered_name oc) = (byte CHR '']'', 1)"
    by (simp only:) (rule decode_last_rune_ascii, simp add: byte_def)
  then show "\<not> is_space (fst (decode_last_rune (registered_name oc)))"
    by (simp add: byte_def is_space_def)
qed (simp add: registered_name_def)

end
