(* ===== verification/Reconciler.thy ===== *)
theory Reconciler
  imports Effects Naming
begin

text \<open>
  The handlers of internal/controller/oidcclient_controller.go as programs over the calls of
  \<open>Effects\<close>, in the order of the source: \<open>Reconcile\<close> and its parts for a live and for a deleted object.
  The object a handler mutates through a pointer is passed and returned. The helpers of
  controller-runtime and apimachinery that compute on values (finalizer lists, condition lists, owner
  references) are fields of the reconciler's record, so nothing is assumed of them here.
\<close>

section \<open>The reconciler and its constants\<close>

definition FinalizerName :: string where
  "FinalizerName = ''oidcclient.tsidp.isvaldi-consulting.github.io/deregister''"

definition ForceRemoveFinalizerAnnotation :: string where
  "ForceRemoveFinalizerAnnotation = ''tsidp.isvaldi-consulting.github.io/force-remove-finalizer''"

definition errBackoff :: duration where
  "errBackoff = 30 * second"

definition ManagedSecretLabels :: "(string \<times> string) list" where
  "ManagedSecretLabels = [(''app.kubernetes.io/managed-by'', ''tsidp-operator'')]"

record reconciler =
  ResyncInterval :: duration
  contains_finalizer :: "string list \<Rightarrow> string \<Rightarrow> bool"
  add_finalizer :: "string list \<Rightarrow> string \<Rightarrow> string list"
  remove_finalizer :: "string list \<Rightarrow> string \<Rightarrow> string list"
  set_status_condition :: "condition list \<Rightarrow> condition \<Rightarrow> condition list"
  get_controller_of :: "owner_ref list \<Rightarrow> owner_ref option"
  set_controller_reference :: "oidc_client \<Rightarrow> secret \<Rightarrow> gerr + secret"

text \<open>\<open>ctrl.Result\<close>: zero is the empty result.\<close>

record reconcile_result =
  RequeueAfter :: duration

definition requeue :: "duration \<Rightarrow> reconcile_result" where
  "requeue d = \<lparr>RequeueAfter = d\<rparr>"

datatype register_outcome =
    OutcomeInvalid
  | OutcomeAdopted
  | OutcomeRegistered
  | OutcomeBurnedOrphan

section \<open>Status and events\<close>

abbreviation client_id :: "oidc_client \<Rightarrow> string" where
  "client_id oc \<equiv> st_client_id (Status oc)"

definition set_client_id :: "string \<Rightarrow> oidc_client \<Rightarrow> oidc_client" where
  "set_client_id i oc = oc\<lparr>Status := (Status oc)\<lparr>st_client_id := i\<rparr>\<rparr>"

definition set_status_secret :: "string \<Rightarrow> oidc_client \<Rightarrow> oidc_client" where
  "set_status_secret n oc = oc\<lparr>Status := (Status oc)\<lparr>st_secret_name := n\<rparr>\<rparr>"

definition set_issuer :: "string \<Rightarrow> oidc_client \<Rightarrow> oidc_client" where
  "set_issuer i oc = oc\<lparr>Status := (Status oc)\<lparr>st_issuer := i\<rparr>\<rparr>"

definition set_cond :: "reconciler \<Rightarrow> oidc_client \<Rightarrow> string \<Rightarrow> string \<Rightarrow> message \<Rightarrow> oidc_client" where
  "set_cond R oc status reason msg =
     oc\<lparr>Status := (Status oc)\<lparr>st_conditions := set_status_condition R (st_conditions (Status oc))
       \<lparr>c_type = ConditionReady, c_status = status, c_reason = reason, c_message = msg,
        c_observed_generation = oc_generation oc, c_last_transition_time = []\<rparr>\<rparr>\<rparr>"

type_synonym outcome = "oidc_client \<times> reconcile_result \<times> gerr option"

definition not_ready :: "reconciler \<Rightarrow> oidc_client \<Rightarrow> string \<Rightarrow> message \<Rightarrow> outcome" where
  "not_ready R oc reason msg = (set_cond R oc ''False'' reason msg, requeue errBackoff, None)"

definition mark_ready :: "reconciler \<Rightarrow> oidc_client \<Rightarrow> oidc_client" where
  "mark_ready R oc = set_cond R (set_status_secret (secret_name oc) oc) ''True'' ''Ready''
     (Plain ''client registered in tsidp; credentials Secret in sync'')"

definition warning :: "string \<Rightarrow> message \<Rightarrow> recorded_event" where
  "warning reason msg = \<lparr>ev_type = ''Warning'', ev_reason = reason, ev_message = msg\<rparr>"

definition normal :: "string \<Rightarrow> message \<Rightarrow> recorded_event" where
  "normal reason msg = \<lparr>ev_type = ''Normal'', ev_reason = reason, ev_message = msg\<rparr>"

text \<open>\<open>err != nil && !errors.Is(err, tsidp.ErrNotFound)\<close> after a \<open>DeleteClient\<close>.\<close>

definition delete_failure :: "gerr option \<Rightarrow> gerr option" where
  "delete_failure d = (case d of
       None \<Rightarrow> None
     | Some err \<Rightarrow> if errors_is err ErrNotFound then None else Some err)"

section \<open>Secrets\<close>

text \<open>\<open>ref := metav1.GetControllerOf(s); ref != nil && ref.UID == oc.UID\<close>\<close>

definition owned_by :: "reconciler \<Rightarrow> oidc_client \<Rightarrow> secret \<Rightarrow> bool" where
  "owned_by R oc s = (case get_controller_of R (s_owner_refs s) of
       None \<Rightarrow> False
     | Some ref \<Rightarrow> ref_uid ref = oc_uid oc)"

definition owner_text :: "reconciler \<Rightarrow> secret \<Rightarrow> string" where
  "owner_text R s = (case get_controller_of R (s_owner_refs s) of
       None \<Rightarrow> ''no controller''
     | Some ref \<Rightarrow> ref_kind ref @ '' '' @ ref_name ref)"

definition secret_adoptable :: "reconciler \<Rightarrow> oidc_client \<Rightarrow> string \<Rightarrow> (gerr + secret option) prog" where
  "secret_adoptable R oc name =
     ReadSecret (oc_namespace oc) name (\<lambda>r. Ret (case r of
         Inl err \<Rightarrow>
           if err = KNotFound then Inr None
           else Inl (Wrapf ''reading Secret %s: %w'' [FStr name] (KubeError err))
       | Inr sec \<Rightarrow>
           if \<not> owned_by R oc sec
           then Inl (Wrapf
             (''%w: Secret %s/%s already exists and is not owned by this OIDCClient (%s); ''
              @ ''delete it or choose a different spec.secretName'')
             [FStr (oc_namespace oc), FStr name, FStr (owner_text R sec)] ErrSecretConflict)
           else Inr (Some sec)))"

text \<open>The mutate function of \<open>upsertSecret\<close>; \<open>f\<close> is the caller's part of it.\<close>

definition upsert_mutate ::
  "reconciler \<Rightarrow> oidc_client \<Rightarrow> (secret \<Rightarrow> secret option) \<Rightarrow> secret \<Rightarrow> gerr + secret" where
  "upsert_mutate R oc f sec =
     (if s_created sec \<and> \<not> owned_by R oc sec
      then Inl (Errorf ''refusing to overwrite Secret %s/%s: not owned by this OIDCClient''
                  [FStr (oc_namespace oc), FStr (s_name sec)])
      else (case apply_secret_template sec (SecretTemplate (Spec oc)) of
          None \<Rightarrow> Inl (GoPanic ''assignment to entry in nil map'')
        | Some sec1 \<Rightarrow>
       (case gm_puts ManagedSecretLabels (gm_ensure (s_labels sec1)) of
          None \<Rightarrow> Inl (GoPanic ''assignment to entry in nil map'')
        | Some labels \<Rightarrow>
       (case f (sec1\<lparr>s_labels := labels\<rparr>) of
          None \<Rightarrow> Inl (GoPanic ''assignment to entry in nil map'')
        | Some sec2 \<Rightarrow> set_controller_reference R oc sec2))))"

definition upsert_secret ::
  "reconciler \<Rightarrow> oidc_client \<Rightarrow> (secret \<Rightarrow> secret option) \<Rightarrow> gerr option prog" where
  "upsert_secret R oc f =
     UpsertSecret (oc_namespace oc) (secret_name oc) (upsert_mutate R oc f) Ret"

text \<open>The credentials and the metadata, written when a client was just registered.\<close>

definition write_credentials ::
  "funnel_client \<Rightarrow> provider_metadata \<Rightarrow> string list \<Rightarrow> secret \<Rightarrow> secret option" where
  "write_credentials resp disc uris s =
     (case gm_puts [(''client_id'', fc_client_id resp), (''client_secret'', fc_client_secret resp)]
             (gm_ensure (s_data s)) of
        None \<Rightarrow> None
      | Some d \<Rightarrow> set_secret_metadata (s\<lparr>s_data := d\<rparr>) disc uris)"

text \<open>The Secret holds usable credentials of the client \<open>i\<close>.\<close>

definition holds_credentials :: "secret \<Rightarrow> string \<Rightarrow> bool" where
  "holds_credentials s i \<longleftrightarrow> data_of s ''client_id'' = i \<and> data_of s ''client_secret'' \<noteq> []"

section \<open>Registering or adopting\<close>

definition registration_of :: "oidc_client \<Rightarrow> registration_request" where
  "registration_of oc =
     \<lparr>rr_redirect_uris = RedirectURIs (Spec oc),
      rr_token_endpoint_auth_method = TokenEndpointAuthMethod (Spec oc),
      rr_grant_types = GrantTypes (Spec oc),
      rr_response_types = ResponseTypes (Spec oc),
      rr_client_name = registered_name oc,
      rr_client_uri = ClientURI (Spec oc),
      rr_logo_uri = LogoURI (Spec oc),
      rr_scope = Scope (Spec oc),
      rr_contacts = Contacts (Spec oc),
      rr_application_type = ApplicationType (Spec oc)\<rparr>"

definition register_new ::
  "reconciler \<Rightarrow> oidc_client \<Rightarrow> provider_metadata \<Rightarrow> (oidc_client \<times> register_outcome \<times> gerr option) prog" where
  "register_new R oc disc =
     Register (registration_of oc) (\<lambda>r. case r of
         Inl err \<Rightarrow> Ret (oc, OutcomeInvalid, Some (Wrapf ''registering client: %w'' [] err))
       | Inr resp \<Rightarrow>
           bind (upsert_secret R oc (write_credentials resp disc (RedirectURIs (Spec oc)))) (\<lambda>u. case u of
               Some err \<Rightarrow> Ret (oc, OutcomeInvalid, Some (Wrapf ''writing credentials Secret: %w'' [] err))
             | None \<Rightarrow>
                 (let oc' = set_status_secret (secret_name oc) (set_client_id (fc_client_id resp) oc)
                  in Emit (normal ''Registered'' (Sprintf
                       ''registered client %s with tsidp; credentials written to Secret %s/%s''
                       [MStr (fc_client_id resp), MStr (oc_namespace oc), MStr (secret_name oc')]))
                     (\<lambda>_. Ret (oc', OutcomeRegistered, None)))))"

definition register_or_adopt ::
  "reconciler \<Rightarrow> oidc_client \<Rightarrow> provider_metadata \<Rightarrow> (oidc_client \<times> register_outcome \<times> gerr option) prog" where
  "register_or_adopt R oc disc =
     bind (secret_adoptable R oc (secret_name oc)) (\<lambda>a. case a of
         Inl err \<Rightarrow> Ret (oc, OutcomeInvalid, Some err)
       | Inr existingSec \<Rightarrow>
           ListClients (\<lambda>l. case l of
               Inl err \<Rightarrow> Ret (oc, OutcomeInvalid, Some (Wrapf ''listing clients for adoption: %w'' [] err))
             | Inr clients \<Rightarrow>
                 (case find (\<lambda>fc. contains (fc_client_name fc) (fingerprint oc)) clients of
                    None \<Rightarrow> register_new R oc disc
                  | Some fc \<Rightarrow>
                      if (case existingSec of None \<Rightarrow> False | Some s \<Rightarrow> holds_credentials s (fc_client_id fc))
                      then Emit (normal ''Adopted'' (Sprintf ''adopted existing tsidp registration %s''
                                  [MStr (fc_client_id fc)]))
                             (\<lambda>_. Ret (set_client_id (fc_client_id fc) oc, OutcomeAdopted, None))
                      else DeleteClient (fc_client_id fc) (\<lambda>d. case delete_failure d of
                          Some err \<Rightarrow> Ret (oc, OutcomeInvalid,
                            Some (Wrapf ''deleting unadoptable orphan %s: %w'' [FStr (fc_client_id fc)] err))
                        | None \<Rightarrow> Emit (warning ''OrphanReplaced'' (Sprintf
                              ''deleted fingerprint-matched registration %s whose credentials were unrecoverable''
                              [MStr (fc_client_id fc)]))
                            (\<lambda>_. Ret (oc, OutcomeBurnedOrphan, None))))))"

section \<open>A live object\<close>

definition bad_uri :: "string \<Rightarrow> bool" where
  "bad_uri u \<longleftrightarrow> list_ex (\<lambda>c. is_space c \<or> is_control c) (runes u)"

text \<open>
  Cleaning up after a rename of \<open>spec.secretName\<close>. \<open>Inl\<close> is an early return of the caller.
\<close>

definition rename_cleanup :: "reconciler \<Rightarrow> oidc_client \<Rightarrow> (outcome + oidc_client) prog" where
  "rename_cleanup R oc =
     (let oldName = st_secret_name (Status oc) in
      if oldName \<noteq> [] \<and> oldName \<noteq> secret_name oc then
        bind (secret_adoptable R oc (secret_name oc)) (\<lambda>a. case a of
            Inl err \<Rightarrow> Ret (Inl (not_ready R oc
               (if errors_is err ErrSecretConflict then ''SecretConflict'' else ''SecretReadFailed'')
               (ErrText err)))
          | Inr _ \<Rightarrow>
              ReadSecret (oc_namespace oc) oldName (\<lambda>old0. case old0 of
                  Inl err \<Rightarrow>
                    if err = KNotFound then Ret (Inr (set_status_secret [] oc))
                    else Ret (Inl (not_ready R oc ''SecretCleanupFailed''
                           (Sprintf ''reading old Secret %s: %v'' [MStr oldName, MErr (KubeError err)])))
                | Inr old \<Rightarrow>
                    if owned_by R oc old
                    then DeleteSecret old (s_uid old) (\<lambda>d. case d of
                        Some err \<Rightarrow>
                          if err = KNotFound then Ret (Inr (set_status_secret [] oc))
                          else Ret (Inl (not_ready R oc ''SecretCleanupFailed''
                                 (Sprintf ''deleting old Secret %s: %v'' [MStr oldName, MErr (KubeError err)])))
                      | None \<Rightarrow> Ret (Inr (set_status_secret [] oc)))
                    else Ret (Inr (set_status_secret [] oc))))
      else Ret (Inr oc))"

text \<open>Keeping the Secret's metadata converged; the last step of a pass that ends in Ready.\<close>

definition converge_secret :: "reconciler \<Rightarrow> oidc_client \<Rightarrow> provider_metadata \<Rightarrow> outcome prog" where
  "converge_secret R oc disc =
     bind (upsert_secret R oc (\<lambda>s. set_secret_metadata s disc (RedirectURIs (Spec oc)))) (\<lambda>u. case u of
         Some err \<Rightarrow> Ret (not_ready R oc ''SecretWriteFailed'' (ErrText err))
       | None \<Rightarrow> Ret (mark_ready R oc, requeue (ResyncInterval R), None))"

definition drifted :: "oidc_client \<Rightarrow> funnel_client \<Rightarrow> bool" where
  "drifted oc remote \<longleftrightarrow>
     fc_client_name remote \<noteq> registered_name oc
     \<or> \<not> same_string_set (fc_redirect_uris remote) (RedirectURIs (Spec oc))"

definition check_drift ::
  "reconciler \<Rightarrow> oidc_client \<Rightarrow> provider_metadata \<Rightarrow> funnel_client \<Rightarrow> outcome prog" where
  "check_drift R oc disc remote =
     (if drifted oc remote then
        (if UpdatePolicy (Spec oc) = UpdatePolicyInPlace then
           UpdateClient (client_id oc) (registered_name oc) (RedirectURIs (Spec oc)) (\<lambda>u. case u of
               Some err \<Rightarrow> Ret (not_ready R oc ''InPlaceUpdateFailed'' (ErrText err))
             | None \<Rightarrow> Emit (normal ''UpdatedInPlace''
                    (Plain ''updated client name/redirect URIs in tsidp; client_id and secret preserved''))
                  (\<lambda>_. converge_secret R oc disc))
         else if UpdatePolicy (Spec oc) = UpdatePolicyBlock then
           Ret (not_ready R oc ''DriftBlocked'' (Plain
             (''registration drifted from spec and updatePolicy is Block; ''
              @ ''resolve manually or change the policy'')))
         else
           Emit (warning ''RecreatingOnDrift'' (Plain
             (''spec drifted from tsidp registration; ''
              @ ''re-registering with new credentials (updatePolicy Recreate)'')))
             (\<lambda>_. DeleteClient (client_id oc) (\<lambda>d. case delete_failure d of
                 Some err \<Rightarrow> Ret (not_ready R oc ''TsidpUnreachable''
                     (Sprintf ''deleting drifted client: %v'' [MErr err]))
               | None \<Rightarrow> Ret (set_client_id [] oc, requeue second, None))))
      else converge_secret R oc disc)"

definition burn_lost_secret :: "reconciler \<Rightarrow> oidc_client \<Rightarrow> outcome prog" where
  "burn_lost_secret R oc =
     Emit (warning ''SecretLost'' (Sprintf
       ''credentials Secret %s/%s is missing or inconsistent; re-registering with new credentials''
       [MStr (oc_namespace oc), MStr (secret_name oc)]))
       (\<lambda>_. DeleteClient (client_id oc) (\<lambda>d. case delete_failure d of
           Some err \<Rightarrow> Ret (not_ready R oc ''TsidpUnreachable''
               (Sprintf ''deleting stale client: %v'' [MErr err]))
         | None \<Rightarrow> Ret (set_client_id [] oc, requeue second, None)))"

definition reconcile_registered :: "reconciler \<Rightarrow> oidc_client \<Rightarrow> provider_metadata \<Rightarrow> outcome prog" where
  "reconcile_registered R oc disc =
     GetClient (client_id oc) (\<lambda>g. case g of
         Inl err \<Rightarrow>
           if errors_is err ErrNotFound
           then Emit (warning ''RegistrationLost'' (Sprintf
                  ''client %s no longer exists in tsidp; re-registering with new credentials''
                  [MStr (client_id oc)]))
                  (\<lambda>_. Ret (set_client_id [] oc, requeue second, None))
           else Ret (not_ready R oc ''TsidpUnreachable'' (Sprintf ''reading client: %v'' [MErr err]))
       | Inr remote \<Rightarrow>
           ReadSecret (oc_namespace oc) (secret_name oc) (\<lambda>s. case s of
               Inl secErr \<Rightarrow>
                 if secErr \<noteq> KNotFound
                 then Ret (not_ready R oc ''SecretReadFailed''
                        (Sprintf ''reading credentials Secret: %v'' [MErr (KubeError secErr)]))
                 else burn_lost_secret R oc
             | Inr sec \<Rightarrow>
                 if holds_credentials sec (client_id oc) then check_drift R oc disc remote
                 else burn_lost_secret R oc))"

definition ensure_registered :: "reconciler \<Rightarrow> oidc_client \<Rightarrow> provider_metadata \<Rightarrow> outcome prog" where
  "ensure_registered R oc disc =
     (if client_id oc = [] then
        bind (register_or_adopt R oc disc) (\<lambda>(oc', outcome, err). case err of
            Some e \<Rightarrow> Ret (not_ready R oc'
              (if errors_is e ErrSecretConflict then ''SecretConflict'' else ''RegistrationFailed'') (ErrText e))
          | None \<Rightarrow> (case outcome of
                OutcomeBurnedOrphan \<Rightarrow> Ret (oc', requeue second, None)
              | OutcomeRegistered \<Rightarrow> Ret (mark_ready R oc', requeue (ResyncInterval R), None)
              | _ \<Rightarrow> reconcile_registered R oc' disc))
      else reconcile_registered R oc disc)"

definition reconcile_normal :: "reconciler \<Rightarrow> oidc_client \<Rightarrow> outcome prog" where
  "reconcile_normal R oc =
     (case find bad_uri (RedirectURIs (Spec oc)) of
        Some u \<Rightarrow> Ret (not_ready R oc ''SpecInvalid''
            (Sprintf ''redirect URI %q contains whitespace or control characters'' [MStr u]))
      | None \<Rightarrow>
          Discovery (\<lambda>d. case d of
              Inl err \<Rightarrow> Ret (not_ready R oc ''TsidpUnreachable''
                  (Sprintf ''fetching discovery document: %v'' [MErr err]))
            | Inr disc \<Rightarrow>
                bind (rename_cleanup R (set_issuer (pm_issuer disc) oc)) (\<lambda>c. case c of
                    Inl out \<Rightarrow> Ret out
                  | Inr oc' \<Rightarrow> ensure_registered R oc' disc)))"

section \<open>A deleted object\<close>

text \<open>\<open>Some\<close> is an early return of the caller; \<open>None\<close> goes on to the finalizer.\<close>

fun delete_fingerprinted :: "reconciler \<Rightarrow> oidc_client \<Rightarrow> funnel_client list \<Rightarrow> reconcile_result option prog" where
  "delete_fingerprinted R oc [] = Ret None"
| "delete_fingerprinted R oc (fc # fcs) =
     (if \<not> contains (fc_client_name fc) (fingerprint oc) then delete_fingerprinted R oc fcs
      else DeleteClient (fc_client_id fc) (\<lambda>d. case delete_failure d of
          Some err \<Rightarrow>
            Emit (warning ''DeregisterFailed'' (Sprintf
              ''failed to delete fingerprinted client %s (will retry): %v''
              [MStr (fc_client_id fc), MErr err])) (\<lambda>_. Ret (Some (requeue errBackoff)))
        | None \<Rightarrow>
            Emit (normal ''Deregistered'' (Sprintf
              ''deleted unrecorded fingerprinted client %s during finalization'' [MStr (fc_client_id fc)]))
              (\<lambda>_. delete_fingerprinted R oc fcs)))"

definition deregister :: "reconciler \<Rightarrow> oidc_client \<Rightarrow> reconcile_result option prog" where
  "deregister R oc =
     (if gm_get (oc_annotations oc) ForceRemoveFinalizerAnnotation \<noteq> None then Ret None
      else if DeletionPolicy (Spec oc) = DeletionPolicyOrphan then Ret None
      else if client_id oc \<noteq> [] then
        DeleteClient (client_id oc) (\<lambda>d. case delete_failure d of
            Some err \<Rightarrow>
              Emit (warning ''DeregisterFailed'' (Sprintf
                ''failed to deregister client %s from tsidp (will retry; annotate with %s to skip): %v''
                [MStr (client_id oc), MStr ForceRemoveFinalizerAnnotation, MErr err]))
                (\<lambda>_. Ret (Some (requeue errBackoff)))
          | None \<Rightarrow>
              Emit (normal ''Deregistered'' (Sprintf
                ''deregistered client %s from tsidp (outstanding tokens revoked)'' [MStr (client_id oc)]))
                (\<lambda>_. Ret None))
      else
        ListClients (\<lambda>l. case l of
            Inl err \<Rightarrow>
              Emit (warning ''DeregisterFailed'' (Sprintf
                (''failed to list tsidp clients for fingerprint cleanup ''
                 @ ''(will retry; annotate with %s to skip): %v'')
                [MStr ForceRemoveFinalizerAnnotation, MErr err]))
                (\<lambda>_. Ret (Some (requeue errBackoff)))
          | Inr list \<Rightarrow> delete_fingerprinted R oc list))"

definition reconcile_delete :: "reconciler \<Rightarrow> oidc_client \<Rightarrow> (reconcile_result \<times> gerr option) prog" where
  "reconcile_delete R oc =
     (if \<not> contains_finalizer R (oc_finalizers oc) FinalizerName then Ret (requeue 0, None)
      else bind (deregister R oc) (\<lambda>d. case d of
          Some res \<Rightarrow> Ret (res, None)
        | None \<Rightarrow>
            UpdateOIDC (oc\<lparr>oc_finalizers := remove_finalizer R (oc_finalizers oc) FinalizerName\<rparr>)
              (\<lambda>u. Ret (case u of
                  Inl err \<Rightarrow> (requeue 0, Some (KubeError err))
                | Inr _ \<Rightarrow> (requeue 0, None)))))"

section \<open>Reconcile\<close>

definition ensure_finalizer :: "reconciler \<Rightarrow> oidc_client \<Rightarrow> (gerr + oidc_client) prog" where
  "ensure_finalizer R oc =
     (if \<not> contains_finalizer R (oc_finalizers oc) FinalizerName
      then UpdateOIDC (oc\<lparr>oc_finalizers := add_finalizer R (oc_finalizers oc) FinalizerName\<rparr>)
             (\<lambda>u. Ret (case u of Inl err \<Rightarrow> Inl (KubeError err) | Inr oc' \<Rightarrow> Inr oc'))
      else Ret (Inr oc))"

definition observe_generation :: "oidc_client \<Rightarrow> oidc_client" where
  "observe_generation oc = oc\<lparr>Status := (Status oc)\<lparr>st_observed_generation := oc_generation oc\<rparr>\<rparr>"

definition reconcile :: "reconciler \<Rightarrow> string \<Rightarrow> string \<Rightarrow> (reconcile_result \<times> gerr option) prog" where
  "reconcile R ns name =
     GetOIDC ns name (\<lambda>g. case g of
         Inl err \<Rightarrow> Ret (requeue 0, if err = KNotFound then None else Some (KubeError err))
       | Inr oc \<Rightarrow>
           if oc_deletion_timestamp oc \<noteq> None then reconcile_delete R oc
           else bind (ensure_finalizer R oc) (\<lambda>f. case f of
               Inl err \<Rightarrow> Ret (requeue 0, Some err)
             | Inr oc1 \<Rightarrow>
                 bind (reconcile_normal R oc1) (\<lambda>(oc2, res, reconcileErr).
                   UpdateStatus (observe_generation oc2) (\<lambda>u. Ret (case u of
                       Inl err \<Rightarrow> if err = KConflict then (requeue second, None)
                                  else (requeue 0, Some (KubeError err))
                     | Inr _ \<Rightarrow> (res, reconcileErr))))))"

section \<open>Frame facts\<close>

text \<open>Writing the status leaves metadata and spec alone, and so every name derived from them.\<close>

lemma set_client_id_simps [simp]:
  "Spec (set_client_id i oc) = Spec oc" "oc_name (set_client_id i oc) = oc_name oc"
  "oc_namespace (set_client_id i oc) = oc_namespace oc" "oc_uid (set_client_id i oc) = oc_uid oc"
  "oc_generation (set_client_id i oc) = oc_generation oc"
  "client_id (set_client_id i oc) = i"
  "st_secret_name (Status (set_client_id i oc)) = st_secret_name (Status oc)"
  "st_conditions (Status (set_client_id i oc)) = st_conditions (Status oc)"
  "st_issuer (Status (set_client_id i oc)) = st_issuer (Status oc)"
  by (simp_all add: set_client_id_def)

lemma set_status_secret_simps [simp]:
  "Spec (set_status_secret n oc) = Spec oc" "oc_name (set_status_secret n oc) = oc_name oc"
  "oc_namespace (set_status_secret n oc) = oc_namespace oc" "oc_uid (set_status_secret n oc) = oc_uid oc"
  "oc_generation (set_status_secret n oc) = oc_generation oc"
  "client_id (set_status_secret n oc) = client_id oc"
  "st_secret_name (Status (set_status_secret n oc)) = n"
  "st_conditions (Status (set_status_secret n oc)) = st_conditions (Status oc)"
  "st_issuer (Status (set_status_secret n oc)) = st_issuer (Status oc)"
  by (simp_all add: set_status_secret_def)

lemma set_issuer_simps [simp]:
  "Spec (set_issuer i oc) = Spec oc" "oc_name (set_issuer i oc) = oc_name oc"
  "oc_namespace (set_issuer i oc) = oc_namespace oc" "oc_uid (set_issuer i oc) = oc_uid oc"
  "oc_generation (set_issuer i oc) = oc_generation oc"
  "client_id (set_issuer i oc) = client_id oc"
  "st_secret_name (Status (set_issuer i oc)) = st_secret_name (Status oc)"
  "st_conditions (Status (set_issuer i oc)) = st_conditions (Status oc)"
  "st_issuer (Status (set_issuer i oc)) = i"
  by (simp_all add: set_issuer_def)

lemma set_cond_simps [simp]:
  "Spec (set_cond R oc s r m) = Spec oc" "oc_name (set_cond R oc s r m) = oc_name oc"
  "oc_namespace (set_cond R oc s r m) = oc_namespace oc" "oc_uid (set_cond R oc s r m) = oc_uid oc"
  "oc_generation (set_cond R oc s r m) = oc_generation oc"
  "client_id (set_cond R oc s r m) = client_id oc"
  "st_secret_name (Status (set_cond R oc s r m)) = st_secret_name (Status oc)"
  "st_issuer (Status (set_cond R oc s r m)) = st_issuer (Status oc)"
  by (simp_all add: set_cond_def)

lemma names_simps [simp]:
  "fingerprint (set_client_id i oc) = fingerprint oc"
  "fingerprint (set_status_secret n oc) = fingerprint oc"
  "fingerprint (set_issuer x oc) = fingerprint oc"
  "registered_name (set_client_id i oc) = registered_name oc"
  "registered_name (set_status_secret n oc) = registered_name oc"
  "registered_name (set_issuer x oc) = registered_name oc"
  "secret_name (set_client_id i oc) = secret_name oc"
  "secret_name (set_status_secret n oc) = secret_name oc"
  "secret_name (set_issuer x oc) = secret_name oc"
  by (simp_all add: fingerprint_def registered_name_def display_name_def secret_name_def Let_def)

lemma owned_by_simps [simp]:
  "owned_by R (set_client_id i oc) s = owned_by R oc s"
  "owned_by R (set_status_secret n oc) s = owned_by R oc s"
  "owned_by R (set_issuer x oc) s = owned_by R oc s"
  by (simp_all add: owned_by_def split: option.split)

lemma drifted_simps [simp]:
  "drifted (set_client_id i oc) = drifted oc"
  "drifted (set_status_secret n oc) = drifted oc"
  "drifted (set_issuer x oc) = drifted oc"
  by (simp_all add: drifted_def fun_eq_iff)

lemma registration_of_simps [simp]:
  "registration_of (set_client_id i oc) = registration_of oc"
  "registration_of (set_status_secret n oc) = registration_of oc"
  "registration_of (set_issuer x oc) = registration_of oc"
  by (simp_all add: registration_of_def)

lemma mark_ready_simps [simp]:
  "client_id (mark_ready R oc) = client_id oc"
  "st_secret_name (Status (mark_ready R oc)) = secret_name oc"
  "Spec (mark_ready R oc) = Spec oc"
  by (simp_all add: mark_ready_def)

end
