(* ===== verification/LivePass.thy ===== *)
theory LivePass
  imports Reconciler
begin

text \<open>
  The contract of one pass over a live object (\<open>reconcileNormal\<close>), for every environment: a guard on
  each call in terms of the calls answered before it (\<open>live_guard\<close>) and a description of the result
  (\<open>live_result\<close>). Every handler of the pass is shown to meet it; the properties of the pass are
  consequences.
\<close>

section \<open>What a history shows\<close>

text \<open>The same object up to its status.\<close>

definition same_object :: "oidc_client \<Rightarrow> oidc_client \<Rightarrow> bool" where
  "same_object oc oc' \<longleftrightarrow> oc'\<lparr>Status := Status oc\<rparr> = oc"

definition saw_absent :: "oidc_client \<Rightarrow> call list \<Rightarrow> bool" where
  "saw_absent oc h \<longleftrightarrow> CReadSecret (oc_namespace oc) (secret_name oc) (Inl KNotFound) \<in> set h"

definition saw_secret :: "oidc_client \<Rightarrow> call list \<Rightarrow> secret \<Rightarrow> bool" where
  "saw_secret oc h s \<longleftrightarrow> CReadSecret (oc_namespace oc) (secret_name oc) (Inr s) \<in> set h"

text \<open>The Secret's name was free or the Secret was ours when the API server was asked.\<close>

definition vetted :: "reconciler \<Rightarrow> oidc_client \<Rightarrow> call list \<Rightarrow> bool" where
  "vetted R oc h \<longleftrightarrow> saw_absent oc h \<or> (\<exists>s. saw_secret oc h s \<and> owned_by R oc s)"

definition saw_credentials :: "oidc_client \<Rightarrow> call list \<Rightarrow> string \<Rightarrow> bool" where
  "saw_credentials oc h i \<longleftrightarrow> (\<exists>s. saw_secret oc h s \<and> holds_credentials s i)"

definition lost_credentials :: "oidc_client \<Rightarrow> call list \<Rightarrow> string \<Rightarrow> bool" where
  "lost_credentials oc h i \<longleftrightarrow> saw_absent oc h \<or> (\<exists>s. saw_secret oc h s \<and> \<not> holds_credentials s i)"

definition fingerprinted :: "oidc_client \<Rightarrow> call list \<Rightarrow> string \<Rightarrow> bool" where
  "fingerprinted oc h i \<longleftrightarrow>
     (\<exists>l fc. CListClients (Inr l) \<in> set h \<and> fc \<in> set l \<and> fc_client_id fc = i
        \<and> contains (fc_client_name fc) (fingerprint oc))"

text \<open>The last call listed the clients, and none of them carries the fingerprint.\<close>

definition no_fingerprinted :: "oidc_client \<Rightarrow> call list \<Rightarrow> bool" where
  "no_fingerprinted oc h \<longleftrightarrow>
     (\<exists>h0 l. h = h0 @ [CListClients (Inr l)]
        \<and> (\<forall>fc \<in> set l. \<not> contains (fc_client_name fc) (fingerprint oc)))"

definition listed :: "call list \<Rightarrow> bool" where
  "listed h \<longleftrightarrow> (\<exists>l. CListClients l \<in> set h)"

text \<open>A registration the pass may treat as the object's: the recorded one, or one it adopted.\<close>

definition ours :: "oidc_client \<Rightarrow> call list \<Rightarrow> string \<Rightarrow> bool" where
  "ours oc h i \<longleftrightarrow> (client_id oc \<noteq> [] \<and> i = client_id oc) \<or> (client_id oc = [] \<and> fingerprinted oc h i)"

definition saw_drift :: "oidc_client \<Rightarrow> call list \<Rightarrow> string \<Rightarrow> bool" where
  "saw_drift oc h i \<longleftrightarrow> (\<exists>remote. CGetClient i (Inr remote) \<in> set h \<and> drifted oc remote)"

definition saw_in_sync :: "oidc_client \<Rightarrow> call list \<Rightarrow> string \<Rightarrow> bool" where
  "saw_in_sync oc h i \<longleftrightarrow> (\<exists>remote. CGetClient i (Inr remote) \<in> set h \<and> \<not> drifted oc remote)"

text \<open>Deleting a registration is justified by lost credentials, or by drift under Recreate.\<close>

definition delete_justified :: "oidc_client \<Rightarrow> call list \<Rightarrow> string \<Rightarrow> bool" where
  "delete_justified oc h i \<longleftrightarrow> ours oc h i \<and>
     (lost_credentials oc h i
      \<or> (saw_credentials oc h i \<and> saw_drift oc h i
         \<and> UpdatePolicy (Spec oc) \<noteq> UpdatePolicyInPlace \<and> UpdatePolicy (Spec oc) \<noteq> UpdatePolicyBlock))"

definition credentials_mutate ::
  "reconciler \<Rightarrow> oidc_client \<Rightarrow> funnel_client \<Rightarrow> provider_metadata \<Rightarrow> (secret \<Rightarrow> gerr + secret) \<Rightarrow> bool" where
  "credentials_mutate R oc resp disc m \<longleftrightarrow>
     (\<exists>oc'. same_object oc oc' \<and> m = upsert_mutate R oc' (write_credentials resp disc (RedirectURIs (Spec oc))))"

definition metadata_mutate ::
  "reconciler \<Rightarrow> oidc_client \<Rightarrow> provider_metadata \<Rightarrow> (secret \<Rightarrow> gerr + secret) \<Rightarrow> bool" where
  "metadata_mutate R oc disc m \<longleftrightarrow>
     (\<exists>oc'. same_object oc oc' \<and> m = upsert_mutate R oc' (\<lambda>s. set_secret_metadata s disc (RedirectURIs (Spec oc))))"

section \<open>The guard on calls\<close>

fun live_guard :: "reconciler \<Rightarrow> oidc_client \<Rightarrow> call list \<Rightarrow> call \<Rightarrow> bool" where
  "live_guard R oc h (CRegister q r) \<longleftrightarrow>
     q = registration_of oc \<and> client_id oc = [] \<and> vetted R oc h \<and> no_fingerprinted oc h"
| "live_guard R oc h (CDeleteClient i d) \<longleftrightarrow> delete_justified oc h i"
| "live_guard R oc h (CUpdateClient i n us u) \<longleftrightarrow>
     n = registered_name oc \<and> us = RedirectURIs (Spec oc) \<and> UpdatePolicy (Spec oc) = UpdatePolicyInPlace
     \<and> ours oc h i \<and> saw_drift oc h i \<and> saw_credentials oc h i"
| "live_guard R oc h (CDeleteSecret s u d) \<longleftrightarrow>
     u = s_uid s \<and> owned_by R oc s \<and> st_secret_name (Status oc) \<noteq> secret_name oc
     \<and> CReadSecret (oc_namespace oc) (st_secret_name (Status oc)) (Inr s) \<in> set h \<and> vetted R oc h"
| "live_guard R oc h (CUpsertSecret ns n m u) \<longleftrightarrow>
     ns = oc_namespace oc \<and> n = secret_name oc
     \<and> (\<exists>disc. CDiscovery (Inr disc) \<in> set h \<and>
          ((\<exists>resp. CRegister (registration_of oc) (Inr resp) \<in> set h \<and> vetted R oc h
              \<and> credentials_mutate R oc resp disc m)
           \<or> (\<exists>i. ours oc h i \<and> saw_credentials oc h i \<and> metadata_mutate R oc disc m)))"
| "live_guard R oc h (CReadSecret ns n r) \<longleftrightarrow>
     ns = oc_namespace oc \<and> (n = secret_name oc \<or> n = st_secret_name (Status oc))"
| "live_guard R oc h (CGetClient i r) \<longleftrightarrow> ours oc h i"
| "live_guard R oc h (CListClients r) \<longleftrightarrow> client_id oc = [] \<and> vetted R oc h \<and> \<not> listed h"
| "live_guard R oc h (CGetOIDC ns n r) \<longleftrightarrow> False"
| "live_guard R oc h (CUpdateOIDC oc' r) \<longleftrightarrow> False"
| "live_guard R oc h (CUpdateStatus oc' r) \<longleftrightarrow> False"
| "live_guard R oc h (CEmit e) \<longleftrightarrow> True"
| "live_guard R oc h (CDiscovery r) \<longleftrightarrow> True"

section \<open>The result\<close>

text \<open>
  A client identifier the pass may leave in the status: the recorded one, one whose credentials it
  has just written, or a fingerprinted one whose credentials it has read from the owned Secret.
\<close>

definition wrote_credentials :: "reconciler \<Rightarrow> oidc_client \<Rightarrow> call list \<Rightarrow> string \<Rightarrow> bool" where
  "wrote_credentials R oc h i \<longleftrightarrow>
     (\<exists>resp disc m. CRegister (registration_of oc) (Inr resp) \<in> set h \<and> fc_client_id resp = i
        \<and> credentials_mutate R oc resp disc m
        \<and> CUpsertSecret (oc_namespace oc) (secret_name oc) m None \<in> set h)"

definition adopted :: "reconciler \<Rightarrow> oidc_client \<Rightarrow> call list \<Rightarrow> string \<Rightarrow> bool" where
  "adopted R oc h i \<longleftrightarrow> fingerprinted oc h i
     \<and> (\<exists>s. saw_secret oc h s \<and> owned_by R oc s \<and> holds_credentials s i)"

definition recordable :: "reconciler \<Rightarrow> oidc_client \<Rightarrow> call list \<Rightarrow> string \<Rightarrow> bool" where
  "recordable R oc h i \<longleftrightarrow> i = [] \<or> i = client_id oc
     \<or> (client_id oc = [] \<and> (wrote_credentials R oc h i \<or> adopted R oc h i))"

text \<open>
  Ready is set after a registration whose credentials were written, or after the registration, the
  Secret and the comparison with the spec (or an in-place update) were all found in order and the
  Secret's metadata was written.
\<close>

definition verified :: "reconciler \<Rightarrow> oidc_client \<Rightarrow> call list \<Rightarrow> string \<Rightarrow> bool" where
  "verified R oc h i \<longleftrightarrow>
     ours oc h i \<and> saw_credentials oc h i
     \<and> (saw_in_sync oc h i
        \<or> CUpdateClient i (registered_name oc) (RedirectURIs (Spec oc)) None \<in> set h)
     \<and> (\<exists>disc m. metadata_mutate R oc disc m
          \<and> CUpsertSecret (oc_namespace oc) (secret_name oc) m None \<in> set h)"

definition failure_reasons :: "string set" where
  "failure_reasons = {''SpecInvalid'', ''TsidpUnreachable'', ''SecretConflict'', ''SecretReadFailed'',
     ''SecretCleanupFailed'', ''RegistrationFailed'', ''InPlaceUpdateFailed'', ''DriftBlocked'',
     ''SecretWriteFailed''}"

text \<open>A requeue after one second follows a deletion that went through or a registration that was gone.\<close>

definition restarted :: "oidc_client \<Rightarrow> call list \<Rightarrow> bool" where
  "restarted oc h \<longleftrightarrow> (\<exists>i. ours oc h i \<and>
     ((\<exists>d. CDeleteClient i d \<in> set h \<and> delete_failure d = None)
      \<or> (\<exists>e. CGetClient i (Inl e) \<in> set h \<and> errors_is e ErrNotFound)))"

inductive live_result :: "reconciler \<Rightarrow> oidc_client \<Rightarrow> call list \<Rightarrow> outcome \<Rightarrow> bool"
  for R :: reconciler and oc :: oidc_client and h :: "call list" where
  failed: "same_object oc x \<Longrightarrow> st_conditions (Status x) = st_conditions (Status oc) \<Longrightarrow>
     recordable R oc h (client_id x) \<Longrightarrow> reason \<in> failure_reasons \<Longrightarrow>
     live_result R oc h (not_ready R x reason msg)"
| restart: "same_object oc x \<Longrightarrow> st_conditions (Status x) = st_conditions (Status oc) \<Longrightarrow>
     client_id x = [] \<Longrightarrow> restarted oc h \<Longrightarrow>
     live_result R oc h (x, requeue second, None)"
| ready: "same_object oc x \<Longrightarrow> st_conditions (Status x) = st_conditions (Status oc) \<Longrightarrow>
     client_id oc = [] \<and> wrote_credentials R oc h (client_id x)
     \<or> recordable R oc h (client_id x) \<and> verified R oc h (client_id x) \<Longrightarrow>
     live_result R oc h (mark_ready R x, requeue (ResyncInterval R), None)"

section \<open>Histories grow\<close>

lemma same_object_refl [simp]: "same_object oc oc"
  by (simp add: same_object_def)

lemma same_object_set [simp]:
  "same_object oc (set_client_id i x) = same_object oc x"
  "same_object oc (set_status_secret n x) = same_object oc x"
  "same_object oc (set_issuer u x) = same_object oc x"
  by (simp_all add: same_object_def set_client_id_def set_status_secret_def set_issuer_def)

lemma same_objectD:
  assumes "same_object oc x"
  shows "Spec x = Spec oc" "oc_name x = oc_name oc" "oc_namespace x = oc_namespace oc"
    "oc_uid x = oc_uid oc" "oc_generation x = oc_generation oc"
    "fingerprint x = fingerprint oc" "registered_name x = registered_name oc"
    "secret_name x = secret_name oc" "registration_of x = registration_of oc"
    "owned_by R x = owned_by R oc" "drifted x = drifted oc"
proof -
  obtain st where st: "x = oc\<lparr>Status := st\<rparr>"
    using assms unfolding same_object_def by (metis oidc_client.surjective oidc_client.update_convs(10))
  show "Spec x = Spec oc" "oc_name x = oc_name oc" "oc_namespace x = oc_namespace oc"
    "oc_uid x = oc_uid oc" "oc_generation x = oc_generation oc"
    by (simp_all add: st)
  then show "fingerprint x = fingerprint oc" "registered_name x = registered_name oc"
    "secret_name x = secret_name oc" "registration_of x = registration_of oc"
    "owned_by R x = owned_by R oc" "drifted x = drifted oc"
    by (simp_all add: fingerprint_def registered_name_def display_name_def secret_name_def
        registration_of_def owned_by_def drifted_def Let_def fun_eq_iff cong: option.case_cong)
qed

lemmas history_defs = saw_absent_def saw_secret_def vetted_def saw_credentials_def lost_credentials_def
  fingerprinted_def ours_def saw_drift_def saw_in_sync_def wrote_credentials_def
  adopted_def recordable_def verified_def restarted_def

lemma history_mono:
  assumes "set h \<subseteq> set h'"
  shows "vetted R oc h \<Longrightarrow> vetted R oc h'" "saw_credentials oc h i \<Longrightarrow> saw_credentials oc h' i"
    "ours oc h i \<Longrightarrow> ours oc h' i" "fingerprinted oc h i \<Longrightarrow> fingerprinted oc h' i"
    "recordable R oc h i \<Longrightarrow> recordable R oc h' i" "adopted R oc h i \<Longrightarrow> adopted R oc h' i"
    "wrote_credentials R oc h i \<Longrightarrow> wrote_credentials R oc h' i"
  using assms unfolding history_defs by blast+

lemma listed_snoc [simp]:
  "listed []  = False" "listed (h @ t) = (listed h \<or> listed t)"
  "listed (c # t) = ((\<exists>l. c = CListClients l) \<or> listed t)"
  by (auto simp: listed_def)

lemma history_snoc:
  "vetted R oc h \<Longrightarrow> vetted R oc (h @ t)" "saw_credentials oc h i \<Longrightarrow> saw_credentials oc (h @ t) i"
  "ours oc h i \<Longrightarrow> ours oc (h @ t) i" "fingerprinted oc h i \<Longrightarrow> fingerprinted oc (h @ t) i"
  "recordable R oc h i \<Longrightarrow> recordable R oc (h @ t) i" "adopted R oc h i \<Longrightarrow> adopted R oc (h @ t) i"
  "wrote_credentials R oc h i \<Longrightarrow> wrote_credentials R oc (h @ t) i"
  by (rule history_mono [of h "h @ t"]; simp)+

end
