(* ===== verification/LiveHandlers.thy ===== *)
theory LiveHandlers
  imports LivePass
begin

text \<open>
  Every handler of the pass over a live object meets the contract of \<open>LivePass\<close>: one lemma per
  handler, from the last one called to \<open>reconcileNormal\<close> itself.
\<close>

section \<open>The state a handler starts from\<close>

text \<open>
  The object handed on differs from the one read in its status only, its conditions are still those
  read, its client identifier may be recorded, and discovery has answered.
\<close>

definition passing ::
  "reconciler \<Rightarrow> oidc_client \<Rightarrow> provider_metadata \<Rightarrow> call list \<Rightarrow> oidc_client \<Rightarrow> bool" where
  "passing R oc disc h x \<longleftrightarrow> same_object oc x
     \<and> st_conditions (Status x) = st_conditions (Status oc)
     \<and> recordable R oc h (client_id x) \<and> CDiscovery (Inr disc) \<in> set h"

lemma passingD:
  assumes "passing R oc disc h x"
  shows "same_object oc x" "st_conditions (Status x) = st_conditions (Status oc)"
    "recordable R oc h (client_id x)" "CDiscovery (Inr disc) \<in> set h"
  using assms by (simp_all add: passing_def)

lemma passing_snoc: "passing R oc disc h x \<Longrightarrow> passing R oc disc (h @ t) x"
  by (simp add: passing_def history_snoc)

lemma passing_clear: "passing R oc disc h x \<Longrightarrow> passing R oc disc h (set_client_id [] x)"
  by (simp add: passing_def recordable_def)

lemma failed_result:
  assumes "passing R oc disc h x" and "reason \<in> failure_reasons"
  shows "live_result R oc h (not_ready R x reason msg)"
  using assms by (intro live_result.failed) (simp_all add: passing_def)

lemma restart_result:
  assumes "passing R oc disc h x" and "restarted oc h"
  shows "live_result R oc h (set_client_id [] x, requeue second, None)"
  using assms by (intro live_result.restart) (simp_all add: passing_def)

lemma restarted_delete:
  assumes "ours oc h i" and "delete_failure d = None"
  shows "restarted oc (h @ t @ CDeleteClient i d # u)"
  unfolding restarted_def
  using history_snoc(3) [OF assms(1), of "t @ CDeleteClient i d # u"] assms(2) by fastforce

lemma restarted_lost:
  assumes "ours oc h i" and "errors_is e ErrNotFound"
  shows "restarted oc (h @ CGetClient i (Inl e) # u)"
  unfolding restarted_def
  using history_snoc(3) [OF assms(1), of "CGetClient i (Inl e) # u"] assms(2) by fastforce

lemma live_guard_emit: "live_guard R oc h (CEmit e)"
  by simp

lemma live_guard_read:
  "live_guard R oc h (CReadSecret (oc_namespace oc) (secret_name oc) r)"
  "live_guard R oc h (CReadSecret (oc_namespace oc) (st_secret_name (Status oc)) r)"
  by simp_all

section \<open>The handlers of a registered object\<close>

lemma converge_secret_spec:
  assumes p: "passing R oc disc h x" and o: "ours oc h (client_id x)"
    and c: "saw_credentials oc h (client_id x)"
    and d: "saw_in_sync oc h (client_id x)
      \<or> CUpdateClient (client_id x) (registered_name oc) (RedirectURIs (Spec oc)) None \<in> set h"
  shows "spec (live_guard R oc) (converge_secret R x disc) h (\<lambda>a h'. live_result R oc h' a)"
proof -
  let ?m = "upsert_mutate R x (\<lambda>s. set_secret_metadata s disc (RedirectURIs (Spec oc)))"
  note so = passingD(1) [OF p] and eqs = same_objectD [OF passingD(1) [OF p]]
  have m: "metadata_mutate R oc disc ?m"
    unfolding metadata_mutate_def using so by blast
  let ?c = "\<lambda>r. CUpsertSecret (oc_namespace oc) (secret_name oc) ?m r"
  have guard: "live_guard R oc h (?c r)" for r
    using m o c passingD(4) [OF p] by auto
  have fail: "live_result R oc (h @ [?c (Some e)]) (not_ready R x ''SecretWriteFailed'' (ErrText e))" for e
    by (rule failed_result [OF passing_snoc [OF p]]) (simp add: failure_reasons_def)
  have "verified R oc (h @ [?c None]) (client_id x)"
    unfolding verified_def using m d history_snoc(2) [OF c] history_snoc(3) [OF o]
    by (auto simp: saw_in_sync_def)
  then have "live_result R oc (h @ [?c None]) (mark_ready R x, requeue (ResyncInterval R), None)"
    using passing_snoc [OF p] by (intro live_result.ready) (simp_all add: passing_def)
  then show ?thesis
    using guard fail by (auto simp: converge_secret_def upsert_secret_def eqs split: option.split)
qed

lemma burn_lost_secret_spec:
  assumes p: "passing R oc disc h x" and o: "ours oc h (client_id x)"
    and l: "lost_credentials oc h (client_id x)"
  shows "spec (live_guard R oc) (burn_lost_secret R x) h (\<lambda>a h'. live_result R oc h' a)"
proof -
  have guard: "live_guard R oc (h @ [CEmit e]) (CDeleteClient (client_id x) d)" for e d
    using l history_snoc(3) [OF o] by (auto simp: delete_justified_def lost_credentials_def saw_absent_def saw_secret_def)
  have fail: "live_result R oc (h @ [CEmit e, CDeleteClient (client_id x) d])
      (not_ready R x ''TsidpUnreachable'' m)" for e d m
    by (rule failed_result [OF passing_snoc [OF p]]) (simp add: failure_reasons_def)
  have again: "delete_failure d = None \<Longrightarrow>
      live_result R oc (h @ [CEmit e, CDeleteClient (client_id x) d]) (set_client_id [] x, requeue second, None)"
    for e d
    using restart_result [OF passing_snoc [OF p] restarted_delete [OF o, of d "[CEmit e]" "[]", simplified]] by simp
  show ?thesis
    using guard fail again by (auto simp: burn_lost_secret_def split: option.split)
qed

lemma check_drift_spec:
  assumes p: "passing R oc disc h x" and o: "ours oc h (client_id x)"
    and c: "saw_credentials oc h (client_id x)" and g: "CGetClient (client_id x) (Inr remote) \<in> set h"
  shows "spec (live_guard R oc) (check_drift R x disc remote) h (\<lambda>a h'. live_result R oc h' a)"
proof -
  let ?i = "client_id x"
  note eqs = same_objectD [OF passingD(1) [OF p]]
  let ?u = "\<lambda>r. CUpdateClient ?i (registered_name oc) (RedirectURIs (Spec oc)) r"
  have sync: "spec (live_guard R oc) (converge_secret R x disc) h (\<lambda>a h'. live_result R oc h' a)"
    if "\<not> drifted oc remote"
    using that g by (intro converge_secret_spec [OF p o c]) (auto simp: saw_in_sync_def)
  have after: "spec (live_guard R oc) (converge_secret R x disc) (h @ [?u None, CEmit e])
      (\<lambda>a h'. live_result R oc h' a)" for e
    by (rule converge_secret_spec [OF passing_snoc [OF p]]) (simp_all add: history_snoc o c)
  have fail: "live_result R oc (h @ t) (not_ready R x r m)" if "r \<in> failure_reasons" for r m t
    using failed_result [OF passing_snoc [OF p] that] .
  have drift: "saw_drift oc (h @ t) ?i" if "drifted oc remote" for t
    using that g by (auto simp: saw_drift_def)
  have del: "live_guard R oc (h @ [CEmit e]) (CDeleteClient ?i d)"
    if "drifted oc remote" "UpdatePolicy (Spec oc) \<noteq> UpdatePolicyInPlace"
      "UpdatePolicy (Spec oc) \<noteq> UpdatePolicyBlock" for e d
    using that drift by (simp add: delete_justified_def history_snoc o c)
  have again: "delete_failure d = None \<Longrightarrow>
      live_result R oc (h @ [CEmit e, CDeleteClient ?i d]) (set_client_id [] x, requeue second, None)" for e d
    using restart_result [OF passing_snoc [OF p] restarted_delete [OF o, of d "[CEmit e]" "[]", simplified]] by simp
  have here: "live_result R oc h (not_ready R x ''DriftBlocked'' m)" for m
    using fail [of "''DriftBlocked''" "[]"] by (simp add: failure_reasons_def)
  show ?thesis
    using sync after fail drift [of "[]"] del again here o c
    by (auto simp: check_drift_def eqs failure_reasons_def split: option.split)
qed

lemma reconcile_registered_spec:
  assumes p: "passing R oc disc h x" and o: "ours oc h (client_id x)"
  shows "spec (live_guard R oc) (reconcile_registered R x disc) h (\<lambda>a h'. live_result R oc h' a)"
proof -
  let ?i = "client_id x"
  note eqs = same_objectD [OF passingD(1) [OF p]]
  have fail: "live_result R oc (h @ t) (not_ready R x r m)" if "r \<in> failure_reasons" for r m t
    using failed_result [OF passing_snoc [OF p] that] .
  have lost: "live_result R oc (h @ [CGetClient ?i (Inl e), CEmit v]) (set_client_id [] x, requeue second, None)"
    if "errors_is e ErrNotFound" for e v
    using restart_result [OF passing_snoc [OF p] restarted_lost [OF o that, of "[CEmit v]", simplified]] by simp
  have burn: "spec (live_guard R oc) (burn_lost_secret R x) (h @ t) (\<lambda>a h'. live_result R oc h' a)"
    if "lost_credentials oc (h @ t) ?i" for t
    using that by (intro burn_lost_secret_spec [OF passing_snoc [OF p]] history_snoc o)
  have absent: "lost_credentials oc (h @ [g, CReadSecret (oc_namespace oc) (secret_name oc) (Inl KNotFound)]) ?i" for g
    by (simp add: lost_credentials_def saw_absent_def)
  have broken: "lost_credentials oc (h @ [g, CReadSecret (oc_namespace oc) (secret_name oc) (Inr s)]) ?i"
    if "\<not> holds_credentials s ?i" for g s
    using that by (auto simp: lost_credentials_def saw_secret_def)
  have drift: "spec (live_guard R oc) (check_drift R x disc remote)
      (h @ [CGetClient ?i (Inr remote), CReadSecret (oc_namespace oc) (secret_name oc) (Inr s)])
      (\<lambda>a h'. live_result R oc h' a)" if "holds_credentials s ?i" for remote s
  proof (rule check_drift_spec [OF passing_snoc [OF p] history_snoc(3) [OF o]])
    show "saw_credentials oc
        (h @ [CGetClient ?i (Inr remote), CReadSecret (oc_namespace oc) (secret_name oc) (Inr s)]) ?i"
      unfolding saw_credentials_def saw_secret_def using that by (intro exI [of _ s]) simp
  qed simp
  show ?thesis
    using o fail lost burn absent broken drift
    by (auto simp: reconcile_registered_def eqs failure_reasons_def split: sum.split)
qed

section \<open>Registering and adopting\<close>

text \<open>What \<open>registerOrAdopt\<close> hands back, by outcome and error.\<close>

definition registering_result ::
  "reconciler \<Rightarrow> oidc_client \<Rightarrow> provider_metadata \<Rightarrow> call list
     \<Rightarrow> oidc_client \<times> register_outcome \<times> gerr option \<Rightarrow> bool" where
  "registering_result R oc disc h a = (case a of (x, outcome, err) \<Rightarrow>
     passing R oc disc h x
     \<and> (err = None \<longrightarrow> (case outcome of
          OutcomeInvalid \<Rightarrow> False
        | OutcomeAdopted \<Rightarrow> client_id oc = [] \<and> adopted R oc h (client_id x)
        | OutcomeRegistered \<Rightarrow> client_id oc = [] \<and> wrote_credentials R oc h (client_id x)
        | OutcomeBurnedOrphan \<Rightarrow> client_id x = [] \<and> restarted oc h)))"

lemma register_new_spec:
  assumes p: "passing R oc disc h x" and fresh: "client_id oc = []"
    and v: "vetted R oc h" and n: "no_fingerprinted oc h"
  shows "spec (live_guard R oc) (register_new R x disc) h (\<lambda>a h'. registering_result R oc disc h' a)"
proof -
  note eqs = same_objectD [OF passingD(1) [OF p]]
  let ?m = "\<lambda>resp. upsert_mutate R x (write_credentials resp disc (RedirectURIs (Spec oc)))"
  let ?t = "\<lambda>resp r. [CRegister (registration_of oc) (Inr resp),
    CUpsertSecret (oc_namespace oc) (secret_name oc) (?m resp) r]"
  have m: "credentials_mutate R oc resp disc (?m resp)" for resp
    unfolding credentials_mutate_def using passingD(1) [OF p] by blast
  have g1: "live_guard R oc h (CRegister (registration_of oc) r)" for r
    using fresh v n by simp
  have g2: "live_guard R oc (h @ [CRegister (registration_of oc) (Inr resp)])
      (CUpsertSecret (oc_namespace oc) (secret_name oc) (?m resp) r)" for resp r
    using m [of resp] passingD(4) [OF p] history_snoc(1) [OF v] by auto
  have err: "registering_result R oc disc (h @ t) (x, OutcomeInvalid, Some e)" for t e
    using passing_snoc [OF p] by (simp add: registering_result_def)
  have w: "wrote_credentials R oc (h @ ?t resp None @ [e]) (fc_client_id resp)" for resp e
    unfolding wrote_credentials_def using m [of resp]
    by (intro exI [of _ resp] exI [of _ disc] exI [of _ "?m resp"]) simp
  have "passing R oc disc (h @ ?t resp None @ [e])
      (set_status_secret (secret_name oc) (set_client_id (fc_client_id resp) x))" for resp e
    using passing_snoc [OF p, of "?t resp None @ [e]"] fresh w [of resp e]
    by (simp add: passing_def recordable_def)
  then have ok: "registering_result R oc disc (h @ ?t resp None @ [e])
      (set_status_secret (secret_name oc) (set_client_id (fc_client_id resp) x), OutcomeRegistered, None)"
    for resp e
    using w [of resp e] fresh by (simp add: registering_result_def)
  show ?thesis
    using g1 g2 err ok
    by (auto simp del: live_guard.simps simp add: register_new_def upsert_secret_def eqs Let_def
        live_guard_emit split: sum.split option.split)
qed

text \<open>
  The two reads of a registration: the credentials Secret, then the list of clients. What is known after them, with
  the first fingerprinted client of the list, is what the guards of the following calls ask for.
\<close>

abbreviation looked :: "oidc_client \<Rightarrow> kerr + secret \<Rightarrow> funnel_client list \<Rightarrow> call list" where
  "looked oc r l \<equiv> [CReadSecret (oc_namespace oc) (secret_name oc) r, CListClients (Inr l)]"

abbreviation first_ours :: "oidc_client \<Rightarrow> funnel_client list \<Rightarrow> funnel_client option" where
  "first_ours oc l \<equiv> find (\<lambda>fc. contains (fc_client_name fc) (fingerprint oc)) l"

lemma registering_failed:
  "passing R oc disc h x \<Longrightarrow> registering_result R oc disc (h @ t) (x, OutcomeInvalid, Some e)"
  using passing_snoc by (fastforce simp: registering_result_def)

lemma vetted_read:
  "vetted R oc (h @ CReadSecret (oc_namespace oc) (secret_name oc) (Inl KNotFound) # t)"
  "owned_by R oc s \<Longrightarrow> vetted R oc (h @ CReadSecret (oc_namespace oc) (secret_name oc) (Inr s) # t)"
  by (auto simp: vetted_def saw_absent_def saw_secret_def)

lemma listed_ours:
  assumes "first_ours oc l = Some fc" and "client_id oc = []"
  shows "ours oc (h @ looked oc r l @ t) (fc_client_id fc)" "fingerprinted oc (h @ looked oc r l @ t) (fc_client_id fc)"
  using assms unfolding ours_def fingerprinted_def by (auto simp: find_Some_iff in_set_conv_nth)

lemma adopting_result:
  assumes p: "passing R oc disc h x" and i: "client_id oc = []"
    and fc: "first_ours oc l = Some fc" and s: "owned_by R oc s" "holds_credentials s (fc_client_id fc)"
  shows "registering_result R oc disc (h @ looked oc (Inr s) l @ [e]) (set_client_id (fc_client_id fc) x, OutcomeAdopted, None)"
proof -
  have "adopted R oc (h @ looked oc (Inr s) l @ [e]) (fc_client_id fc)"
    using s listed_ours(2) [OF fc i, of h "Inr s" "[e]"] by (auto simp: adopted_def saw_secret_def)
  then show ?thesis
    using passing_snoc [OF p, of "looked oc (Inr s) l @ [e]"] i
    by (simp add: registering_result_def passing_def recordable_def)
qed

lemma burned_result:
  assumes p: "passing R oc disc h x" and i: "client_id oc = []" "client_id x = []"
    and fc: "first_ours oc l = Some fc" and d: "delete_failure d = None"
  shows "registering_result R oc disc (h @ looked oc r l @ [CDeleteClient (fc_client_id fc) d, e]) (x, OutcomeBurnedOrphan, None)"
  using passing_snoc [OF p] i listed_ours(1) [OF fc i(1), of h r "[]"]
    restarted_delete [OF _ d, of oc "h @ looked oc r l" _ "[]" "[e]"]
  by (simp add: registering_result_def)

lemma orphan_justified:
  assumes "first_ours oc l = Some fc" and "client_id oc = []"
    and "r = Inl KNotFound \<or> (\<exists>s. r = Inr s \<and> \<not> holds_credentials s (fc_client_id fc))"
  shows "delete_justified oc (h @ looked oc r l) (fc_client_id fc)"
  using assms(3) listed_ours(1) [OF assms(1,2), of h r "[]"]
  by (auto simp: delete_justified_def lost_credentials_def saw_absent_def saw_secret_def)

lemma registering_after_list:
  assumes p: "passing R oc disc h x" and i: "client_id oc = []" "client_id x = []"
    and q: "q = None \<and> r = Inl KNotFound \<or> (\<exists>s. q = Some s \<and> r = Inr s \<and> owned_by R oc s)"
  shows "spec (live_guard R oc)
      (case first_ours oc l of
         None \<Rightarrow> register_new R x disc
       | Some fc \<Rightarrow>
           if (case q of None \<Rightarrow> False | Some s \<Rightarrow> holds_credentials s (fc_client_id fc))
           then Emit (ad fc) (\<lambda>_. Ret (set_client_id (fc_client_id fc) x, OutcomeAdopted, None))
           else DeleteClient (fc_client_id fc) (\<lambda>d. case delete_failure d of
               Some err \<Rightarrow> Ret (x, OutcomeInvalid, Some (er fc err))
             | None \<Rightarrow> Emit (bu fc) (\<lambda>_. Ret (x, OutcomeBurnedOrphan, None))))
      (h @ looked oc r l) (\<lambda>a h'. registering_result R oc disc h' a)"
proof (cases "first_ours oc l")
  case None
  have "spec (live_guard R oc) (register_new R x disc) (h @ looked oc r l) (\<lambda>a h'. registering_result R oc disc h' a)"
  proof (rule register_new_spec [OF passing_snoc [OF p] i(1)])
    show "no_fingerprinted oc (h @ looked oc r l)"
      using None by (simp add: no_fingerprinted_def find_None_iff)
  qed (use q vetted_read i in auto)
  then show ?thesis using None by simp
next
  case (Some fc)
  show ?thesis
    using q adopting_result [OF p i(1) Some] burned_result [OF p i Some, of _ r] orphan_justified [OF Some i(1), of r h]
      registering_failed [OF p, of "looked oc r l @ [_]"] live_guard_emit
    by (auto simp: Some split: option.split)
qed

lemma register_or_adopt_spec:
  assumes p: "passing R oc disc h x" and fresh: "client_id oc = []" "client_id x = []"
    and unlisted: "\<not> listed h"
  shows "spec (live_guard R oc) (register_or_adopt R x disc) h (\<lambda>a h'. registering_result R oc disc h' a)"
proof -
  note eqs = same_objectD [OF passingD(1) [OF p]]
  let ?read = "\<lambda>r. CReadSecret (oc_namespace oc) (secret_name oc) r"
  have refused: "registering_result R oc disc (h @ [?read r]) (x, OutcomeInvalid, Some e)"
    "registering_result R oc disc (h @ [?read r, c]) (x, OutcomeInvalid, Some e)" for r e c
    using registering_failed [OF p] by blast+
  have list: "live_guard R oc (h @ [?read r]) (CListClients l)"
    if "r = Inl KNotFound \<or> (\<exists>s. r = Inr s \<and> owned_by R oc s)" for r l
    using that vetted_read [where t = "[]"] fresh unlisted by auto
  show ?thesis
    using refused list registering_after_list [OF p fresh]
    by (auto simp del: live_guard.simps simp add: register_or_adopt_def secret_adoptable_def eqs
        live_guard_read split: sum.split)
qed

section \<open>The whole pass\<close>

lemma rename_cleanup_spec:
  assumes p: "passing R oc disc h x" and i: "client_id x = client_id oc"
    and old: "st_secret_name (Status x) = st_secret_name (Status oc)" and unlisted: "\<not> listed h"
  shows "spec (live_guard R oc) (rename_cleanup R x) h (\<lambda>c h'. case c of
      Inl out \<Rightarrow> live_result R oc h' out
    | Inr x' \<Rightarrow> passing R oc disc h' x' \<and> client_id x' = client_id oc \<and> \<not> listed h')"
proof -
  note eqs = same_objectD [OF passingD(1) [OF p]]
  let ?read = "\<lambda>r. CReadSecret (oc_namespace oc) (secret_name oc) r"
  let ?old = "\<lambda>r. CReadSecret (oc_namespace oc) (st_secret_name (Status oc)) r"
  have fail: "live_result R oc (h @ t) (not_ready R x r m)" if "r \<in> failure_reasons" for r m t
    using failed_result [OF passing_snoc [OF p] that] .
  have fail_cleanup: "live_result R oc (h @ t) (not_ready R x ''SecretCleanupFailed'' m)" for m t
    by (rule fail) (simp add: failure_reasons_def)
  have go: "passing R oc disc (h @ t) (set_status_secret [] x)" for t
    using passing_snoc [OF p, of t] by (simp add: passing_def)
  have del: "live_guard R oc (h @ [?read r, ?old (Inr s)]) (CDeleteSecret s (s_uid s) d)"
    if "r = Inl KNotFound \<or> (\<exists>s. r = Inr s \<and> owned_by R oc s)" "owned_by R oc s"
      "st_secret_name (Status oc) \<noteq> secret_name oc" for r s d
    using that by (auto simp: vetted_def saw_absent_def saw_secret_def)
  show ?thesis
    using p i old unlisted fail go del
    by (auto simp del: live_guard.simps simp add: rename_cleanup_def secret_adoptable_def eqs Let_def
        live_guard_read failure_reasons_def split: sum.split option.split) (metis fail_cleanup)+
qed

text \<open>What \<open>ensure_registered\<close> does with each outcome of the registration.\<close>

lemma after_registering_spec:
  assumes "registering_result R oc disc h' (y, out, err)"
  shows "spec (live_guard R oc)
      (case err of
         Some e \<Rightarrow> Ret (not_ready R y
           (if errors_is e ErrSecretConflict then ''SecretConflict'' else ''RegistrationFailed'') (ErrText e))
       | None \<Rightarrow> (case out of
             OutcomeBurnedOrphan \<Rightarrow> Ret (y, requeue second, None)
           | OutcomeRegistered \<Rightarrow> Ret (mark_ready R y, requeue (ResyncInterval R), None)
           | _ \<Rightarrow> reconcile_registered R y disc))
      h' (\<lambda>a h''. live_result R oc h'' a)"
proof (cases err)
  case (Some e)
  then show ?thesis
    using assms failed_result [of R oc disc h' y] by (simp add: registering_result_def failure_reasons_def)
next
  case None
  then have y: "passing R oc disc h' y" using assms by (simp add: registering_result_def)
  show ?thesis
  proof (cases out)
    case OutcomeAdopted
    then have "ours oc h' (client_id y)"
      using assms None by (simp add: registering_result_def ours_def adopted_def)
    then show ?thesis
      using None OutcomeAdopted reconcile_registered_spec [OF y] by simp
  next
    case OutcomeRegistered
    then show ?thesis
      using assms None passingD(1,2) [OF y]
      by (auto simp: registering_result_def intro!: live_result.ready)
  next
    case OutcomeBurnedOrphan
    then show ?thesis
      using assms None passingD(1,2) [OF y]
      by (auto simp: registering_result_def intro!: live_result.restart)
  qed (use assms None in \<open>simp add: registering_result_def\<close>)
qed

lemma ensure_registered_spec:
  assumes p: "passing R oc disc h x" and i: "client_id x = client_id oc" and unlisted: "\<not> listed h"
  shows "spec (live_guard R oc) (ensure_registered R x disc) h (\<lambda>a h'. live_result R oc h' a)"
proof (cases "client_id oc = []")
  case False
  then show ?thesis
    using i reconcile_registered_spec [OF p] by (simp add: ensure_registered_def ours_def)
next
  case True
  have "spec (live_guard R oc) (ensure_registered R x disc) h (\<lambda>a h'. live_result R oc h' a)
      \<longleftrightarrow> spec (live_guard R oc) (register_or_adopt R x disc) h (\<lambda>(y, out, err) h'. spec (live_guard R oc)
      (case err of
         Some e \<Rightarrow> Ret (not_ready R y
           (if errors_is e ErrSecretConflict then ''SecretConflict'' else ''RegistrationFailed'') (ErrText e))
       | None \<Rightarrow> (case out of
             OutcomeBurnedOrphan \<Rightarrow> Ret (y, requeue second, None)
           | OutcomeRegistered \<Rightarrow> Ret (mark_ready R y, requeue (ResyncInterval R), None)
           | _ \<Rightarrow> reconcile_registered R y disc))
      h' (\<lambda>a h''. live_result R oc h'' a))"
    using True i by (simp add: ensure_registered_def case_prod_unfold)
  then show ?thesis
    using spec_mono [OF register_or_adopt_spec [OF p True]] True i unlisted after_registering_spec by auto
qed

theorem reconcile_normal_spec:
  "spec (live_guard R oc) (reconcile_normal R oc) [] (\<lambda>a h. live_result R oc h a)"
proof -
  have invalid: "live_result R oc h (not_ready R oc r m)" if "r \<in> failure_reasons" for h r m
    using that by (intro live_result.failed) (simp_all add: recordable_def)
  have start: "passing R oc disc [CDiscovery (Inr disc)] (set_issuer (pm_issuer disc) oc)" for disc
    by (simp add: passing_def recordable_def)
  have rest: "spec (live_guard R oc) (rename_cleanup R (set_issuer (pm_issuer disc) oc)) [CDiscovery (Inr disc)]
      (\<lambda>c h'. spec (live_guard R oc) (case c of Inl out \<Rightarrow> Ret out | Inr x \<Rightarrow> ensure_registered R x disc)
        h' (\<lambda>a h. live_result R oc h a))" for disc
    by (rule spec_mono [OF rename_cleanup_spec [OF start]])
      (auto split: sum.splits intro: ensure_registered_spec)
  show ?thesis
    using invalid rest
    by (auto simp: reconcile_normal_def failure_reasons_def split: option.split sum.split)
qed

end
