(* ===== verification/DeletePass.thy ===== *)
theory DeletePass
  imports LiveHandlers
begin

text \<open>
  The contract of \<open>reconcileDelete\<close>: what it may do to tsidp for an object that is being deleted, when
  it may release the object by removing the finalizer, and what it returns.
\<close>

section \<open>The contract\<close>

definition forced :: "oidc_client \<Rightarrow> bool" where
  "forced oc \<longleftrightarrow> gm_get (oc_annotations oc) ForceRemoveFinalizerAnnotation \<noteq> None"

definition must_deregister :: "oidc_client \<Rightarrow> bool" where
  "must_deregister oc \<longleftrightarrow> \<not> forced oc \<and> DeletionPolicy (Spec oc) \<noteq> DeletionPolicyOrphan"

text \<open>The client is gone: its deletion was confirmed, or tsidp no longer knew it.\<close>

definition deleted :: "call list \<Rightarrow> string \<Rightarrow> bool" where
  "deleted h i \<longleftrightarrow> (\<exists>d. CDeleteClient i d \<in> set h \<and> delete_failure d = None)"

definition swept :: "oidc_client \<Rightarrow> call list \<Rightarrow> funnel_client list \<Rightarrow> bool" where
  "swept oc h l \<longleftrightarrow>
     (\<forall>fc \<in> set l. contains (fc_client_name fc) (fingerprint oc) \<longrightarrow> deleted h (fc_client_id fc))"

definition deregistered :: "oidc_client \<Rightarrow> call list \<Rightarrow> bool" where
  "deregistered oc h \<longleftrightarrow>
     (if client_id oc \<noteq> [] then deleted h (client_id oc)
      else \<exists>l. CListClients (Inr l) \<in> set h \<and> swept oc h l)"

definition without_finalizer :: "reconciler \<Rightarrow> oidc_client \<Rightarrow> oidc_client" where
  "without_finalizer R oc = oc\<lparr>oc_finalizers := remove_finalizer R (oc_finalizers oc) FinalizerName\<rparr>"

fun delete_guard :: "reconciler \<Rightarrow> oidc_client \<Rightarrow> call list \<Rightarrow> call \<Rightarrow> bool" where
  "delete_guard R oc h (CDeleteClient i d) \<longleftrightarrow> must_deregister oc \<and> ours oc h i"
| "delete_guard R oc h (CListClients l) \<longleftrightarrow> must_deregister oc \<and> client_id oc = [] \<and> \<not> listed h"
| "delete_guard R oc h (CUpdateOIDC x r) \<longleftrightarrow>
     x = without_finalizer R oc \<and> contains_finalizer R (oc_finalizers oc) FinalizerName
     \<and> (must_deregister oc \<longrightarrow> deregistered oc h)"
| "delete_guard R oc h (CEmit e) \<longleftrightarrow> must_deregister oc"
| "delete_guard R oc h _ \<longleftrightarrow> False"

definition refused :: "call \<Rightarrow> bool" where
  "refused c \<longleftrightarrow> (\<exists>e. c = CListClients (Inl e)) \<or> (\<exists>i d. c = CDeleteClient i d \<and> delete_failure d \<noteq> None)"

inductive delete_result ::
  "reconciler \<Rightarrow> oidc_client \<Rightarrow> call list \<Rightarrow> reconcile_result \<times> gerr option \<Rightarrow> bool"
  for R :: reconciler and oc :: oidc_client where
  nothing: "\<not> contains_finalizer R (oc_finalizers oc) FinalizerName \<Longrightarrow>
     delete_result R oc [] (requeue 0, None)"
| retry: "refused c \<Longrightarrow> c \<in> set h \<Longrightarrow> (\<And>x r. CUpdateOIDC x r \<notin> set h) \<Longrightarrow>
     delete_result R oc h (requeue errBackoff, None)"
| released: "delete_result R oc (h @ [CUpdateOIDC (without_finalizer R oc) (Inr x)]) (requeue 0, None)"
| failed: "delete_result R oc (h @ [CUpdateOIDC (without_finalizer R oc) (Inl e)])
     (requeue 0, Some (KubeError e))"

section \<open>The handlers meet it\<close>

lemma deleted_snoc: "deleted h i \<Longrightarrow> deleted (h @ t) i"
  by (auto simp: deleted_def)

text \<open>What \<open>deregister\<close> hands back: an early return after a refusal, or leave to release the object.\<close>

definition deregister_result :: "oidc_client \<Rightarrow> call list \<Rightarrow> reconcile_result option \<Rightarrow> bool" where
  "deregister_result oc h a \<longleftrightarrow> (\<forall>x r. CUpdateOIDC x r \<notin> set h) \<and>
     (case a of
        None \<Rightarrow> must_deregister oc \<longrightarrow> deregistered oc h
      | Some res \<Rightarrow> res = requeue errBackoff \<and> (\<exists>c \<in> set h. refused c))"

lemma delete_fingerprinted_spec:
  assumes "must_deregister oc" and "client_id oc = []" and "CListClients (Inr l) \<in> set h"
    and "set fcs \<subseteq> set l" and "\<forall>fc \<in> set l. fc \<notin> set fcs \<longrightarrow>
      contains (fc_client_name fc) (fingerprint oc) \<longrightarrow> deleted h (fc_client_id fc)"
    and "\<forall>x r. CUpdateOIDC x r \<notin> set h"
  shows "spec (delete_guard R oc) (delete_fingerprinted R oc fcs) h (\<lambda>a h'. deregister_result oc h' a)"
  using assms(3-)
proof (induction fcs arbitrary: h)
  case Nil
  then show ?case
    using assms(1,2) by (auto simp: deregister_result_def deregistered_def swept_def)
next
  case (Cons fc fcs)
  let ?d = "\<lambda>d. CDeleteClient (fc_client_id fc) d"
  show ?case
  proof (cases "contains (fc_client_name fc) (fingerprint oc)")
    case False
    then show ?thesis
      using Cons.prems Cons.IH [of h] by (metis delete_fingerprinted.simps(2) set_ConsD insert_subset list.simps(15))
  next
    case True
    have "ours oc h (fc_client_id fc)"
      using True Cons.prems(1,2) assms(2) by (auto simp: ours_def fingerprinted_def)
    moreover have "deregister_result oc (h @ [?d d, CEmit e]) (Some (requeue errBackoff))"
      if "delete_failure d \<noteq> None" for d e
      using that Cons.prems by (auto simp: deregister_result_def refused_def)
    moreover have "spec (delete_guard R oc) (delete_fingerprinted R oc fcs) (h @ [?d d, CEmit e])
        (\<lambda>a h'. deregister_result oc h' a)" if "delete_failure d = None" for d e
    proof (rule Cons.IH)
      have "deleted (h @ [?d d, CEmit e]) (fc_client_id fc)"
        using that by (auto simp: deleted_def)
      then show "\<forall>g \<in> set l. g \<notin> set fcs \<longrightarrow> contains (fc_client_name g) (fingerprint oc) \<longrightarrow>
          deleted (h @ [?d d, CEmit e]) (fc_client_id g)"
        using Cons.prems(3) deleted_snoc by (metis set_ConsD)
    qed (use Cons.prems in auto)
    ultimately show ?thesis
      using True assms(1) by (auto split: option.split)
  qed
qed

lemma deregister_spec:
  "spec (delete_guard R oc) (deregister R oc) [] (\<lambda>a h. deregister_result oc h a)"
proof (cases "must_deregister oc \<and> client_id oc = []")
  case True
  have "spec (delete_guard R oc) (delete_fingerprinted R oc l) [CListClients (Inr l)]
      (\<lambda>a h'. deregister_result oc h' a)" for l
    using True by (intro delete_fingerprinted_spec) auto
  moreover have "deregister_result oc [CListClients (Inl err), CEmit e] (Some (requeue errBackoff))" for err e
    by (auto simp: deregister_result_def refused_def)
  ultimately show ?thesis
    using True by (auto simp: deregister_def must_deregister_def forced_def split: sum.split)
next
  case False
  then show ?thesis
    by (auto simp: deregister_def must_deregister_def forced_def deregister_result_def deregistered_def
        deleted_def refused_def ours_def split: option.split)
qed

theorem reconcile_delete_spec:
  "spec (delete_guard R oc) (reconcile_delete R oc) [] (\<lambda>a h. delete_result R oc h a)"
proof (cases "contains_finalizer R (oc_finalizers oc) FinalizerName")
  case True
  have eq: "spec (delete_guard R oc) (reconcile_delete R oc) [] (\<lambda>a h. delete_result R oc h a)
      \<longleftrightarrow> spec (delete_guard R oc) (deregister R oc) [] (\<lambda>d h. spec (delete_guard R oc)
        (case d of
           Some res \<Rightarrow> Ret (res, None)
         | None \<Rightarrow> UpdateOIDC (without_finalizer R oc) (\<lambda>u. Ret (case u of
               Inl err \<Rightarrow> (requeue 0, Some (KubeError err))
             | Inr _ \<Rightarrow> (requeue 0, None)))) h (\<lambda>a h. delete_result R oc h a))"
    using True by (simp add: reconcile_delete_def without_finalizer_def [symmetric])
  have cont: "spec (delete_guard R oc)
        (case d of
           Some res \<Rightarrow> Ret (res, None)
         | None \<Rightarrow> UpdateOIDC (without_finalizer R oc) (\<lambda>u. Ret (case u of
               Inl err \<Rightarrow> (requeue 0, Some (KubeError err))
             | Inr _ \<Rightarrow> (requeue 0, None)))) h (\<lambda>a h. delete_result R oc h a)"
    if fin: "deregister_result oc h d" for d h
  proof (cases d)
    case (Some res)
    then obtain c where c: "c \<in> set h" "refused c" and h: "\<forall>x r. CUpdateOIDC x r \<notin> set h"
      and res: "res = requeue errBackoff"
      using fin by (auto simp: deregister_result_def)
    have "delete_result R oc h (requeue errBackoff, None)"
      by (rule delete_result.retry [OF c(2,1)]) (simp add: h)
    then show ?thesis by (simp add: Some res)
  qed (use fin True in \<open>auto simp: deregister_result_def delete_result.released delete_result.failed
        split: sum.split\<close>)
  show ?thesis
    unfolding eq by (rule spec_mono [OF deregister_spec]) (rule cont)
qed (auto simp: reconcile_delete_def intro: delete_result.nothing)

end
