(* ===== verification/Executions.thy ===== *)
theory Executions
  imports Effects
begin

text \<open>
  Executions that may stop after any call, for what must hold when the operator is killed in the
  middle of a reconcile, and the rule that carries an invariant of the outside world along them.
\<close>

section \<open>Histories that obey a guard\<close>

lemma obeys_append: "obeys G h (t @ u) \<longleftrightarrow> obeys G h t \<and> obeys G (h @ t) u"
  by (induction t arbitrary: h) auto

lemma spec_obeys:
  assumes "spec G p [] Q"
  shows "spec (\<lambda>h c. obeys G [] h \<and> G h c) p [] (\<lambda>a h. obeys G [] h \<and> Q a h)"
proof -
  have "spec G p h Q \<Longrightarrow> obeys G [] h \<Longrightarrow>
      spec (\<lambda>h c. obeys G [] h \<and> G h c) p h (\<lambda>a h. obeys G [] h \<and> Q a h)" for h
    by (induction p arbitrary: h) (simp_all add: Let_def obeys_append)
  then show ?thesis using assms by simp
qed

section \<open>Executions one call at a time\<close>

primrec next_call :: "'w env \<Rightarrow> 'a prog \<Rightarrow> 'w \<Rightarrow> (call \<times> 'a prog \<times> 'w) option" where
  "next_call E (Ret a) w = None"
| "next_call E (GetOIDC ns n k) w =
     (let (r, w') = e_get_oidc E ns n w in Some (CGetOIDC ns n r, k r, w'))"
| "next_call E (UpdateOIDC oc k) w =
     (let (r, w') = e_update_oidc E oc w in Some (CUpdateOIDC oc r, k r, w'))"
| "next_call E (UpdateStatus oc k) w =
     (let (r, w') = e_update_status E oc w in Some (CUpdateStatus oc r, k r, w'))"
| "next_call E (ReadSecret ns n k) w =
     (let (r, w') = e_read_secret E ns n w in Some (CReadSecret ns n r, k r, w'))"
| "next_call E (DeleteSecret s u k) w =
     (let (r, w') = e_delete_secret E s u w in Some (CDeleteSecret s u r, k r, w'))"
| "next_call E (UpsertSecret ns n m k) w =
     (let (r, w') = e_upsert_secret E ns n m w in Some (CUpsertSecret ns n m r, k r, w'))"
| "next_call E (Emit e k) w = Some (CEmit e, k (), e_emit E e w)"
| "next_call E (Discovery k) w =
     (let (r, w') = e_discovery E w in Some (CDiscovery r, k r, w'))"
| "next_call E (ListClients k) w =
     (let (r, w') = e_list_clients E w in Some (CListClients r, k r, w'))"
| "next_call E (Register q k) w =
     (let (r, w') = e_register E q w in Some (CRegister q r, k r, w'))"
| "next_call E (GetClient i k) w =
     (let (r, w') = e_get_client E i w in Some (CGetClient i r, k r, w'))"
| "next_call E (DeleteClient i k) w =
     (let (r, w') = e_delete_client E i w in Some (CDeleteClient i r, k r, w'))"
| "next_call E (UpdateClient i n us k) w =
     (let (r, w') = e_update_client E i n us w in Some (CUpdateClient i n us r, k r, w'))"

text \<open>\<open>answered E c w w'\<close>: in state \<open>w\<close> the environment gives the call its answer and goes to \<open>w'\<close>.\<close>

primrec answered :: "'w env \<Rightarrow> call \<Rightarrow> 'w \<Rightarrow> 'w \<Rightarrow> bool" where
  "answered E (CGetOIDC ns n r) w w' = (e_get_oidc E ns n w = (r, w'))"
| "answered E (CUpdateOIDC oc r) w w' = (e_update_oidc E oc w = (r, w'))"
| "answered E (CUpdateStatus oc r) w w' = (e_update_status E oc w = (r, w'))"
| "answered E (CReadSecret ns n r) w w' = (e_read_secret E ns n w = (r, w'))"
| "answered E (CDeleteSecret s u r) w w' = (e_delete_secret E s u w = (r, w'))"
| "answered E (CUpsertSecret ns n m r) w w' = (e_upsert_secret E ns n m w = (r, w'))"
| "answered E (CEmit e) w w' = (e_emit E e w = w')"
| "answered E (CDiscovery r) w w' = (e_discovery E w = (r, w'))"
| "answered E (CListClients r) w w' = (e_list_clients E w = (r, w'))"
| "answered E (CRegister q r) w w' = (e_register E q w = (r, w'))"
| "answered E (CGetClient i r) w w' = (e_get_client E i w = (r, w'))"
| "answered E (CDeleteClient i r) w w' = (e_delete_client E i w = (r, w'))"
| "answered E (CUpdateClient i n us r) w w' = (e_update_client E i n us w = (r, w'))"

text \<open>
  An execution that stops after some of the calls: the process may be killed at any point. What is
  left is the program still to run, the state reached and the calls made.
\<close>

inductive reaches :: "'w env \<Rightarrow> 'a prog \<Rightarrow> 'w \<Rightarrow> call list \<Rightarrow> 'a prog \<Rightarrow> 'w \<Rightarrow> bool"
  for E :: "'w env" and p :: "'a prog" and w :: 'w where
  start: "reaches E p w [] p w"
| call: "reaches E p w h p1 w1 \<Longrightarrow> next_call E p1 w1 = Some (c, p2, w2) \<Longrightarrow> reaches E p w (h @ [c]) p2 w2"

inductive_cases reaches_nil: "reaches E p w [] p1 w1"

lemma next_call_answered: "next_call E p w = Some (c, p', w') \<Longrightarrow> answered E c w w'"
  by (cases p) (auto simp: Let_def case_prod_beta)

lemma next_call_spec:
  "spec G p h Q \<Longrightarrow> next_call E p w = Some (c, p', w') \<Longrightarrow> G h c \<and> spec G p' (h @ [c]) Q"
  by (cases p) (auto simp: Let_def case_prod_beta)

text \<open>A relation between the calls made and the state is kept if every guarded call keeps it.\<close>

lemma reaches_invariant:
  assumes "reaches E p w h p' w'" and "spec G p [] Q" and "K [] w"
    and "\<And>h c w w'. K h w \<Longrightarrow> G h c \<Longrightarrow> answered E c w w' \<Longrightarrow> K (h @ [c]) w'"
  shows "K h w' \<and> spec G p' h Q"
  using assms(1)
proof induction
  case (call h p1 w1 c p2 w2)
  then show ?case
    using assms(4) next_call_spec next_call_answered by metis
qed (simp add: assms(2,3))

lemma reaches_run_aux:
  "reaches E p0 w0 h p w \<Longrightarrow> run E p w = (a, w', t) \<Longrightarrow> reaches E p0 w0 (h @ t) (Ret a) w'"
proof (induction p arbitrary: h w a w' t)
  case (Ret x)
  then show ?case by simp
qed (fastforce simp: Let_def log_call_def case_prod_beta dest: reaches.call)+

lemma reaches_run: "run E p w = (a, w', t) \<Longrightarrow> reaches E p w t (Ret a) w'"
  using reaches_run_aux [OF reaches.start] by fastforce

end
