(* ===== verification/ReconcilePass.thy ===== *)
theory ReconcilePass
  imports DeletePass Executions
begin

text \<open>
  The contract of \<open>Reconcile\<close>, put together from those of its parts: which call may follow which
  history, and how a reconcile ends. It holds for every environment; \<open>reconcile_spec\<close> is the theorem
  the other theories use.
\<close>

lemma spec_prefix:
  assumes "spec G p h Q" and "\<And>h c. G h c \<Longrightarrow> G' (pre @ h) c"
  shows "spec G' p (pre @ h) (\<lambda>a h'. \<exists>t. h' = pre @ t \<and> Q a t)"
  using assms(1) by (induction p arbitrary: h) (fastforce simp: Let_def assms(2))+

section \<open>The contract\<close>

definition with_finalizer :: "reconciler \<Rightarrow> oidc_client \<Rightarrow> oidc_client" where
  "with_finalizer R oc = oc\<lparr>oc_finalizers := add_finalizer R (oc_finalizers oc) FinalizerName\<rparr>"

text \<open>The calls before \<open>reconcileNormal\<close> and the object it starts from.\<close>

inductive started :: "reconciler \<Rightarrow> string \<Rightarrow> string \<Rightarrow> call list \<Rightarrow> oidc_client \<Rightarrow> bool"
  for R :: reconciler and ns n :: string where
  protected: "oc_deletion_timestamp oc = None \<Longrightarrow> contains_finalizer R (oc_finalizers oc) FinalizerName \<Longrightarrow>
     started R ns n [CGetOIDC ns n (Inr oc)] oc"
| finalized: "oc_deletion_timestamp oc = None \<Longrightarrow> \<not> contains_finalizer R (oc_finalizers oc) FinalizerName \<Longrightarrow>
     started R ns n [CGetOIDC ns n (Inr oc), CUpdateOIDC (with_finalizer R oc) (Inr oc1)] oc1"

inductive reconcile_guard :: "reconciler \<Rightarrow> string \<Rightarrow> string \<Rightarrow> call list \<Rightarrow> call \<Rightarrow> bool"
  for R :: reconciler and ns n :: string where
  read_object: "reconcile_guard R ns n [] (CGetOIDC ns n r)"
| in_deletion: "oc_deletion_timestamp oc \<noteq> None \<Longrightarrow> obeys (delete_guard R oc) [] t \<Longrightarrow> delete_guard R oc t c \<Longrightarrow>
     reconcile_guard R ns n (CGetOIDC ns n (Inr oc) # t) c"
| protect: "oc_deletion_timestamp oc = None \<Longrightarrow> \<not> contains_finalizer R (oc_finalizers oc) FinalizerName \<Longrightarrow>
     reconcile_guard R ns n [CGetOIDC ns n (Inr oc)] (CUpdateOIDC (with_finalizer R oc) r)"
| in_pass: "started R ns n pre oc \<Longrightarrow> obeys (live_guard R oc) [] t \<Longrightarrow> live_guard R oc t c \<Longrightarrow>
     reconcile_guard R ns n (pre @ t) c"
| write_status: "started R ns n pre oc \<Longrightarrow> obeys (live_guard R oc) [] t \<Longrightarrow> live_result R oc t (x, res, err) \<Longrightarrow>
     reconcile_guard R ns n (pre @ t) (CUpdateStatus (observe_generation x) r)"

inductive reconcile_ends ::
  "reconciler \<Rightarrow> string \<Rightarrow> string \<Rightarrow> call list \<Rightarrow> reconcile_result \<times> gerr option \<Rightarrow> bool"
  for R :: reconciler and ns n :: string where
  absent: "reconcile_ends R ns n [CGetOIDC ns n (Inl KNotFound)] (requeue 0, None)"
| unread: "e \<noteq> KNotFound \<Longrightarrow> reconcile_ends R ns n [CGetOIDC ns n (Inl e)] (requeue 0, Some (KubeError e))"
| deleting: "oc_deletion_timestamp oc \<noteq> None \<Longrightarrow> delete_result R oc t a \<Longrightarrow>
     reconcile_ends R ns n (CGetOIDC ns n (Inr oc) # t) a"
| unprotected: "oc_deletion_timestamp oc = None \<Longrightarrow>
     reconcile_ends R ns n [CGetOIDC ns n (Inr oc), CUpdateOIDC (with_finalizer R oc) (Inl e)]
       (requeue 0, Some (KubeError e))"
| reconciled: "started R ns n pre oc \<Longrightarrow> live_result R oc t (x, res, err) \<Longrightarrow>
     reconcile_ends R ns n (pre @ t @ [CUpdateStatus (observe_generation x) (Inr y)]) (res, err)"
| conflict: "started R ns n pre oc \<Longrightarrow> live_result R oc t (x, res, err) \<Longrightarrow>
     reconcile_ends R ns n (pre @ t @ [CUpdateStatus (observe_generation x) (Inl KConflict)])
       (requeue second, None)"
| unwritten: "started R ns n pre oc \<Longrightarrow> live_result R oc t (x, res, err) \<Longrightarrow> e \<noteq> KConflict \<Longrightarrow>
     reconcile_ends R ns n (pre @ t @ [CUpdateStatus (observe_generation x) (Inl e)])
       (requeue 0, Some (KubeError e))"

section \<open>Reconcile meets it\<close>

text \<open>\<open>reconcileNormal\<close> followed by the status write.\<close>

lemma pass_and_status_spec:
  assumes s: "started R ns n pre oc"
  shows "spec (reconcile_guard R ns n)
    (bind (reconcile_normal R oc) (\<lambda>(oc2, res, reconcileErr).
       UpdateStatus (observe_generation oc2) (\<lambda>u. Ret (case u of
           Inl err \<Rightarrow> if err = KConflict then (requeue second, None) else (requeue 0, Some (KubeError err))
         | Inr _ \<Rightarrow> (res, reconcileErr)))))
    pre (\<lambda>a h. reconcile_ends R ns n h a)"
proof -
  have "spec (reconcile_guard R ns n) (reconcile_normal R oc) (pre @ [])
      (\<lambda>a h'. \<exists>t. h' = pre @ t \<and> obeys (live_guard R oc) [] t \<and> live_result R oc t a)"
    by (rule spec_prefix [OF spec_obeys [OF reconcile_normal_spec]]) (auto intro: reconcile_guard.in_pass [OF s])
  then have pass: "spec (reconcile_guard R ns n) (reconcile_normal R oc) pre
      (\<lambda>a h'. \<exists>t. h' = pre @ t \<and> obeys (live_guard R oc) [] t \<and> live_result R oc t a)" by simp
  show ?thesis
    unfolding spec_bind
  proof (rule spec_mono [OF pass], clarify)
    fix x res err t
    assume g: "obeys (live_guard R oc) [] t" and r: "live_result R oc t (x, res, err)"
    show "spec (reconcile_guard R ns n)
        (UpdateStatus (observe_generation x) (\<lambda>u. Ret (case u of
           Inl err \<Rightarrow> if err = KConflict then (requeue second, None) else (requeue 0, Some (KubeError err))
         | Inr _ \<Rightarrow> (res, err)))) (pre @ t) (\<lambda>a h. reconcile_ends R ns n h a)"
      using reconcile_guard.write_status [OF s g r] reconcile_ends.reconciled [OF s r]
        reconcile_ends.conflict [OF s r] reconcile_ends.unwritten [OF s r]
      by (simp split: sum.split)
  qed
qed

theorem reconcile_spec:
  "spec (reconcile_guard R ns n) (reconcile R ns n) [] (\<lambda>a h. reconcile_ends R ns n h a)"
proof -
  let ?cont = "\<lambda>oc1. bind (reconcile_normal R oc1) (\<lambda>(oc2, res, reconcileErr).
       UpdateStatus (observe_generation oc2) (\<lambda>u. Ret (case u of
           Inl err \<Rightarrow> if err = KConflict then (requeue second, None) else (requeue 0, Some (KubeError err))
         | Inr _ \<Rightarrow> (res, reconcileErr))))"
  have del: "spec (reconcile_guard R ns n) (reconcile_delete R oc) [CGetOIDC ns n (Inr oc)]
      (\<lambda>a h. reconcile_ends R ns n h a)" if "oc_deletion_timestamp oc \<noteq> None" for oc
  proof -
    have "spec (reconcile_guard R ns n) (reconcile_delete R oc) ([CGetOIDC ns n (Inr oc)] @ [])
        (\<lambda>a h. \<exists>t. h = [CGetOIDC ns n (Inr oc)] @ t \<and> obeys (delete_guard R oc) [] t \<and> delete_result R oc t a)"
      by (rule spec_prefix [OF spec_obeys [OF reconcile_delete_spec]]) (simp add: reconcile_guard.in_deletion [OF that])
    then show ?thesis
      by (auto elim!: spec_mono intro: reconcile_ends.deleting [OF that])
  qed
  have live: "spec (reconcile_guard R ns n)
      (bind (ensure_finalizer R oc) (\<lambda>f. case f of Inl err \<Rightarrow> Ret (requeue 0, Some err) | Inr oc1 \<Rightarrow> ?cont oc1))
      [CGetOIDC ns n (Inr oc)] (\<lambda>a h. reconcile_ends R ns n h a)"
    if "oc_deletion_timestamp oc = None" for oc
  proof (cases "contains_finalizer R (oc_finalizers oc) FinalizerName")
    case True
    then show ?thesis
      using pass_and_status_spec [OF started.protected [OF that True]]
      by (simp only: ensure_finalizer_def bind.simps sum.case not_True_eq_False if_False)
  next
    case False
    then show ?thesis
      using pass_and_status_spec [OF started.finalized [OF that False]]
        reconcile_guard.protect [OF that False] reconcile_ends.unprotected [OF that]
      by (simp add: ensure_finalizer_def with_finalizer_def [symmetric] del: spec_bind split: sum.split)
  qed
  show ?thesis
    using del live reconcile_guard.read_object reconcile_ends.absent reconcile_ends.unread
    by (simp add: reconcile_def del: spec_bind split: sum.split)
qed

end
