(* ===== verification/Registrations.thy ===== *)
theory Registrations
  imports ReconcilePass
begin

text \<open>
  One registration per object. The cluster and tsidp are an environment whose laws are the locale
  \<open>cluster\<close>; other actors may change the cluster and delete clients between any two calls. The
  invariant \<open>one_each\<close> says that at most one registration carries the fingerprint of an object, and
  that it is the recorded one when the object records one. Reconciles keep it, killed after any call
  or not; and when a deletion pass releases an object it had to deregister, no registration with its
  fingerprint is left.
\<close>

section \<open>Fingerprinted registrations\<close>

definition tag :: "string \<Rightarrow> bool" where
  "tag f \<longleftrightarrow> (\<exists>oc. plain_metadata oc \<and> f = fingerprint oc)"

text \<open>The registrations of tsidp are pairs of a client identifier and a client name.\<close>

definition tagged :: "(string \<times> string) set \<Rightarrow> string \<Rightarrow> string set" where
  "tagged C f = {i. \<exists>n. (i, n) \<in> C \<and> contains n f}"

definition well_named :: "oidc_client \<Rightarrow> bool" where
  "well_named oc \<longleftrightarrow> plain_metadata oc \<and> \<not> contains (ClientName (Spec oc)) ''[k8s:''"

definition same_registration :: "oidc_client \<Rightarrow> oidc_client \<Rightarrow> bool" where
  "same_registration x y \<longleftrightarrow> fingerprint y = fingerprint x \<and> client_id y = client_id x"

definition one_each ::
  "('w \<Rightarrow> (string \<times> string) set) \<Rightarrow> ('w \<Rightarrow> string \<Rightarrow> string \<Rightarrow> oidc_client option) \<Rightarrow> 'w \<Rightarrow> bool" where
  "one_each clients stored w \<longleftrightarrow>
     (\<forall>f. tag f \<longrightarrow> (\<exists>i. tagged (clients w) f \<subseteq> {i}))
     \<and> (\<forall>ns n oc. stored w ns n = Some oc \<longrightarrow> client_id oc \<noteq> [] \<longrightarrow>
          tagged (clients w) (fingerprint oc) \<subseteq> {client_id oc})"

lemma tag_fingerprint: "well_named oc \<Longrightarrow> tag (fingerprint oc)"
  by (auto simp: tag_def well_named_def)

lemma registered_name_tag:
  "well_named oc \<Longrightarrow> tag f \<Longrightarrow> contains (registered_name oc) f \<longleftrightarrow> f = fingerprint oc"
  using contains_fingerprint_iff by (auto simp: tag_def well_named_def)

section \<open>What the calls of a pass say of the fingerprinted registrations\<close>

definition registering :: "call list \<Rightarrow> bool" where
  "registering t \<longleftrightarrow> (\<exists>q r. CRegister q r \<in> set t)"

text \<open>\<open>O\<close> is the set of registrations that carry the fingerprint after the calls \<open>t\<close> of a live pass.\<close>

definition phase :: "oidc_client \<Rightarrow> call list \<Rightarrow> string set \<Rightarrow> bool" where
  "phase oc t S \<longleftrightarrow>
     (client_id oc \<noteq> [] \<longrightarrow> S \<subseteq> {client_id oc})
     \<and> (\<forall>i. fingerprinted oc t i \<longrightarrow> S \<subseteq> {i} \<and> client_id oc = [])
     \<and> (\<forall>i k. fingerprinted oc t i \<longrightarrow> fingerprinted oc t k \<longrightarrow> i = k)
     \<and> (\<forall>q resp. CRegister q (Inr resp) \<in> set t \<longrightarrow> S \<subseteq> {fc_client_id resp})
     \<and> (registering t \<longrightarrow> client_id oc = [] \<and> listed t \<and> (\<forall>i. \<not> fingerprinted oc t i))
     \<and> (no_fingerprinted oc t \<longrightarrow> S = {} \<and> \<not> registering t \<and> (\<forall>i. \<not> fingerprinted oc t i))"

lemma phase_start: "(client_id oc \<noteq> [] \<Longrightarrow> S \<subseteq> {client_id oc}) \<Longrightarrow> phase oc [] S"
  by (auto simp: phase_def fingerprinted_def registering_def no_fingerprinted_def)

lemma fingerprinted_snoc:
  "fingerprinted oc (t @ [c]) i \<longleftrightarrow> fingerprinted oc t i
     \<or> (\<exists>l fc. c = CListClients (Inr l) \<and> fc \<in> set l \<and> fc_client_id fc = i
          \<and> contains (fc_client_name fc) (fingerprint oc))"
  by (auto simp: fingerprinted_def)

lemma no_fingerprinted_snoc:
  "no_fingerprinted oc (t @ [c]) \<longleftrightarrow>
     (\<exists>l. c = CListClients (Inr l) \<and> (\<forall>fc \<in> set l. \<not> contains (fc_client_name fc) (fingerprint oc)))"
  by (auto simp: no_fingerprinted_def)

lemma registering_snoc: "registering (t @ [c]) \<longleftrightarrow> registering t \<or> (\<exists>q r. c = CRegister q r)"
  by (auto simp: registering_def)

lemmas phase_snoc = fingerprinted_snoc no_fingerprinted_snoc registering_snoc

lemma phase_quiet:
  assumes "phase oc t S" and "S' \<subseteq> S"
    and "\<And>l. c \<noteq> CListClients l" and "\<And>q r. c \<noteq> CRegister q r"
  shows "phase oc (t @ [c]) S'"
  using assms unfolding phase_def phase_snoc by (auto simp: subset_iff)

lemma phase_list:
  assumes "phase oc t S" and "S' \<subseteq> S" and "S \<subseteq> {j}" and "\<not> listed t" and "client_id oc = []"
    and "\<And>l fc. r = Inr l \<Longrightarrow> fc \<in> set l \<Longrightarrow> contains (fc_client_name fc) (fingerprint oc) \<Longrightarrow>
      fc_client_id fc \<in> S"
    and "\<And>l i. r = Inr l \<Longrightarrow> i \<in> S' \<Longrightarrow>
      \<exists>fc \<in> set l. fc_client_id fc = i \<and> contains (fc_client_name fc) (fingerprint oc)"
  shows "phase oc (t @ [CListClients r]) S'"
proof -
  let ?t = "t @ [CListClients r]"
  have none: "\<not> registering t" "\<And>i. \<not> fingerprinted oc t i"
    using assms(1,4) by (auto simp: phase_def fingerprinted_def listed_def)
  have mem: "i \<in> S" if "fingerprinted oc ?t i" for i
    using that none(2) assms(6) by (auto simp: fingerprinted_snoc)
  have one: "S' \<subseteq> {i}" if "fingerprinted oc ?t i" for i
    using mem [OF that] assms(2,3) by blast
  have same: "i = k" if "fingerprinted oc ?t i" "fingerprinted oc ?t k" for i k
    using mem [OF that(1)] mem [OF that(2)] assms(3) by blast
  have empty: "S' = {}" "\<not> fingerprinted oc ?t i" if "no_fingerprinted oc ?t" for i
    using that none(2) assms(7) unfolding phase_snoc by auto
  have quiet: "\<not> registering ?t" using none(1) by (simp add: registering_snoc)
  show ?thesis
    using one same empty quiet assms(5) unfolding phase_def
    by (simp add: registering_def)
qed

lemma phase_register:
  assumes "phase oc t S" and "no_fingerprinted oc t" and "client_id oc = []"
    and "S' \<subseteq> S \<union> {j}" and "\<And>fc. r = Inr fc \<Longrightarrow> fc_client_id fc = j"
  shows "phase oc (t @ [CRegister q r]) S'"
  using assms unfolding phase_def phase_snoc
  by (auto simp: registering_def no_fingerprinted_def)

lemma phase_ours: "phase oc t S \<Longrightarrow> ours oc t i \<Longrightarrow> S \<subseteq> {i}"
  by (auto simp: phase_def ours_def)

lemma phase_update:
  assumes p: "phase oc t S" and o: "ours oc t i" and S: "S' \<subseteq> S \<union> {i}"
  shows "phase oc (t @ [CUpdateClient i n us r]) S'"
proof -
  let ?t = "t @ [CUpdateClient i n us r]"
  have S': "S' \<subseteq> {i}" using S phase_ours [OF p o] by blast
  have quiet: "\<not> registering ?t" "\<And>q r. CRegister q r \<notin> set t"
    using p o by (auto simp: phase_def ours_def registering_def)
  have fp: "fingerprinted oc ?t k \<Longrightarrow> k = i \<and> client_id oc = []" for k
    using p o unfolding fingerprinted_snoc by (auto simp: phase_def ours_def)
  have rec: "client_id oc \<noteq> [] \<Longrightarrow> S' \<subseteq> {client_id oc}"
    using o S' by (auto simp: ours_def)
  have 1: "\<forall>k. fingerprinted oc ?t k \<longrightarrow> S' \<subseteq> {k} \<and> client_id oc = []"
    using S' fp by blast
  have 2: "\<forall>k k'. fingerprinted oc ?t k \<longrightarrow> fingerprinted oc ?t k' \<longrightarrow> k = k'"
    using fp by blast
  show ?thesis
    unfolding phase_def no_fingerprinted_snoc using rec 1 2 quiet by simp
qed

lemma phase_recordable:
  assumes p: "phase oc t S" and r: "recordable R oc t i" and "i \<noteq> []"
  shows "S \<subseteq> {i}"
proof -
  consider "i = client_id oc" | "wrote_credentials R oc t i" | "adopted R oc t i"
    using r assms(3) by (auto simp: recordable_def)
  then show ?thesis
  proof cases
    case 2
    then show ?thesis using p unfolding phase_def wrote_credentials_def by metis
  qed (use p assms(3) in \<open>simp_all add: phase_def adopted_def\<close>)
qed

section \<open>The calls of a deletion pass\<close>

definition release_phase :: "oidc_client \<Rightarrow> call list \<Rightarrow> string set \<Rightarrow> bool" where
  "release_phase oc t S \<longleftrightarrow>
     (client_id oc \<noteq> [] \<longrightarrow> S \<subseteq> {client_id oc})
     \<and> (\<forall>l. CListClients (Inr l) \<in> set t \<longrightarrow> (\<forall>i \<in> S.
          \<exists>fc \<in> set l. fc_client_id fc = i \<and> contains (fc_client_name fc) (fingerprint oc)))
     \<and> (\<forall>i. deleted t i \<longrightarrow> i \<notin> S)"

lemma release_phase_start: "(client_id oc \<noteq> [] \<Longrightarrow> S \<subseteq> {client_id oc}) \<Longrightarrow> release_phase oc [] S"
  by (simp add: release_phase_def deleted_def)

lemma release_phase_snoc:
  assumes "release_phase oc t S" and "S' \<subseteq> S"
    and "\<And>l i. c = CListClients (Inr l) \<Longrightarrow> i \<in> S' \<Longrightarrow>
      \<exists>fc \<in> set l. fc_client_id fc = i \<and> contains (fc_client_name fc) (fingerprint oc)"
    and "\<And>i d. c = CDeleteClient i d \<Longrightarrow> delete_failure d = None \<Longrightarrow> i \<notin> S'"
  shows "release_phase oc (t @ [c]) S'"
proof -
  have "deleted (t @ [c]) i \<Longrightarrow> i \<notin> S'" for i
    using assms(1,2,4) by (auto simp: release_phase_def deleted_def)
  then show ?thesis
    using assms(1-3) unfolding release_phase_def by (auto simp: subset_iff)
qed

lemma release_phase_done:
  assumes "release_phase oc t S" and "deregistered oc t"
  shows "S = {}"
proof (cases "client_id oc = []")
  case True
  then obtain l where l: "CListClients (Inr l) \<in> set t" "swept oc t l"
    using assms(2) by (auto simp: deregistered_def)
  have "i \<notin> S" for i
  proof
    assume "i \<in> S"
    then obtain fc where "fc \<in> set l" "fc_client_id fc = i" "contains (fc_client_name fc) (fingerprint oc)"
      using assms(1) l(1) unfolding release_phase_def by blast
    then have "deleted t i" using l(2) by (auto simp: swept_def)
    then show False using assms(1) \<open>i \<in> S\<close> by (simp add: release_phase_def)
  qed
  then show ?thesis by blast
next
  case False
  then show ?thesis
    using assms by (auto simp: deregistered_def release_phase_def)
qed

text \<open>What a pass over \<open>oc\<close> may rely on of the stored objects.\<close>

definition known :: "('w \<Rightarrow> string \<Rightarrow> string \<Rightarrow> oidc_client option) \<Rightarrow> oidc_client \<Rightarrow> 'w \<Rightarrow> bool" where
  "known stored oc w \<longleftrightarrow> well_named oc
     \<and> (\<forall>ns n x. stored w ns n = Some x \<longrightarrow> fingerprint x = fingerprint oc \<longrightarrow>
          client_id x = [] \<or> client_id x = client_id oc)"

text \<open>The state after the calls \<open>h\<close> of a reconcile.\<close>

definition progress ::
  "reconciler \<Rightarrow> string \<Rightarrow> string \<Rightarrow> ('w \<Rightarrow> (string \<times> string) set)
     \<Rightarrow> ('w \<Rightarrow> string \<Rightarrow> string \<Rightarrow> oidc_client option) \<Rightarrow> call list \<Rightarrow> 'w \<Rightarrow> bool" where
  "progress R ns n clients stored h w \<longleftrightarrow> one_each clients stored w
     \<and> (\<forall>oc. h = [CGetOIDC ns n (Inr oc)] \<longrightarrow> oc_namespace oc = ns \<and> oc_name oc = n)
     \<and> (\<forall>pre oc t. started R ns n pre oc \<longrightarrow> h = pre @ t \<longrightarrow> obeys (live_guard R oc) [] t \<longrightarrow>
          known stored oc w \<and> phase oc t (tagged (clients w) (fingerprint oc)))
     \<and> (\<forall>oc t. h = CGetOIDC ns n (Inr oc) # t \<longrightarrow> oc_deletion_timestamp oc \<noteq> None \<longrightarrow>
          obeys (delete_guard R oc) [] t \<longrightarrow>
          well_named oc \<and> release_phase oc t (tagged (clients w) (fingerprint oc)))"

lemma observe_generation_simps [simp]:
  "client_id (observe_generation x) = client_id x" "fingerprint (observe_generation x) = fingerprint x"
  by (simp_all add: observe_generation_def fingerprint_def)

lemma live_result_status:
  assumes "live_result R oc t (x, res, err)"
  shows "same_object oc x \<and> recordable R oc t (client_id x)"
  using assms
proof cases
  case (failed y reason msg)
  then show ?thesis
    by (simp add: not_ready_def same_object_def set_cond_def)
next
  case (ready y)
  then show ?thesis
    by (auto simp: mark_ready_def same_object_def set_cond_def set_status_secret_def recordable_def)
qed (simp_all add: recordable_def)

text \<open>
  The lifetime of a cluster: reconciles of any objects, each run to its end or killed after any
  call, and steps of other actors.
\<close>

inductive lifetime :: "'w env \<Rightarrow> reconciler \<Rightarrow> ('w \<Rightarrow> 'w \<Rightarrow> bool) \<Rightarrow> 'w \<Rightarrow> 'w \<Rightarrow> bool"
  for E :: "'w env" and R :: reconciler and outside :: "'w \<Rightarrow> 'w \<Rightarrow> bool" and w :: 'w where
  begun: "lifetime E R outside w w"
| reconciled: "lifetime E R outside w w1 \<Longrightarrow> reaches E (reconcile R ns n) w1 h p w2 \<Longrightarrow>
     lifetime E R outside w w2"
| outside: "lifetime E R outside w w1 \<Longrightarrow> outside w1 w2 \<Longrightarrow> lifetime E R outside w w2"

section \<open>The cluster and tsidp as an environment\<close>

text \<open>
  \<open>clients\<close> are the registrations of tsidp and \<open>stored\<close> is the object of a namespace and name. The
  laws leave room for other actors: a registration may go away or lose the fingerprint at any
  time, an object may go away, be replaced by a new one that records nothing, or be changed
  outside its status. A failed call may have had its effect or not.
\<close>

locale cluster =
  fixes E :: "'w env"
    and clients :: "'w \<Rightarrow> (string \<times> string) set"
    and stored :: "'w \<Rightarrow> string \<Rightarrow> string \<Rightarrow> oidc_client option"
    and good :: "'w \<Rightarrow> bool"
    and outside :: "'w \<Rightarrow> 'w \<Rightarrow> bool"
  assumes good_kept: "good w \<Longrightarrow> answered E c w w' \<Longrightarrow> good w'"
    and identity: "good w \<Longrightarrow> stored w ns n = Some oc \<Longrightarrow>
      oc_namespace oc = ns \<and> oc_name oc = n \<and> well_named oc"
    and objects: "good w \<Longrightarrow> answered E c w w' \<Longrightarrow> stored w' ns n = Some y \<Longrightarrow>
      client_id y = [] \<or> (\<exists>x. stored w ns n = Some x \<and> same_registration x y)
      \<or> (\<exists>x r. c = CUpdateStatus x r \<and> same_registration x y)"
    and object_read: "good w \<Longrightarrow> answered E (CGetOIDC ns n (Inr oc)) w w' \<Longrightarrow> stored w ns n = Some oc"
    and object_written: "good w \<Longrightarrow> answered E (CUpdateOIDC x (Inr y)) w w' \<Longrightarrow>
      well_named y \<and> (\<exists>z. stored w (oc_namespace x) (oc_name x) = Some z \<and> same_registration z y)"
    and clients_kept: "good w \<Longrightarrow> answered E c w w' \<Longrightarrow> tag f \<Longrightarrow> (\<And>q r. c \<noteq> CRegister q r) \<Longrightarrow>
      (\<And>i m us r. c \<noteq> CUpdateClient i m us r) \<Longrightarrow> tagged (clients w') f \<subseteq> tagged (clients w) f"
    and clients_registered: "good w \<Longrightarrow> answered E (CRegister q g) w w' \<Longrightarrow>
      \<exists>j. (\<forall>f. tag f \<longrightarrow> tagged (clients w') f
               \<subseteq> tagged (clients w) f \<union> (if contains (rr_client_name q) f then {j} else {}))
        \<and> (\<forall>fc. g = Inr fc \<longrightarrow> fc_client_id fc = j)"
    and clients_updated: "good w \<Longrightarrow> answered E (CUpdateClient i m us u) w w' \<Longrightarrow> tag f \<Longrightarrow>
      tagged (clients w') f \<subseteq> tagged (clients w) f \<union> (if contains (trim_space m) f then {i} else {})"
    and clients_listed: "good w \<Longrightarrow> answered E (CListClients (Inr l)) w w' \<Longrightarrow> tag f \<Longrightarrow>
      (\<forall>fc \<in> set l. contains (fc_client_name fc) f \<longrightarrow> fc_client_id fc \<in> tagged (clients w) f)
      \<and> (\<forall>i \<in> tagged (clients w') f. \<exists>fc \<in> set l. fc_client_id fc = i \<and> contains (fc_client_name fc) f)"
    and client_deleted: "good w \<Longrightarrow> answered E (CDeleteClient i d) w w' \<Longrightarrow> delete_failure d = None \<Longrightarrow>
      tag f \<Longrightarrow> i \<notin> tagged (clients w') f"
    and outside_good: "good w \<Longrightarrow> outside w w' \<Longrightarrow> good w'"
    and outside_clients: "good w \<Longrightarrow> outside w w' \<Longrightarrow> tag f \<Longrightarrow> tagged (clients w') f \<subseteq> tagged (clients w) f"
    and outside_objects: "good w \<Longrightarrow> outside w w' \<Longrightarrow> stored w' ns n = Some y \<Longrightarrow>
      client_id y = [] \<or> (\<exists>x. stored w ns n = Some x \<and> same_registration x y)"
begin

lemma one_each_kept:
  assumes "one_each clients stored w" and w': "good w'"
    and sub: "\<And>f. tag f \<Longrightarrow> tagged (clients w') f \<subseteq> tagged (clients w) f"
    and ob: "\<And>ns n y. stored w' ns n = Some y \<Longrightarrow>
      client_id y = [] \<or> (\<exists>x. stored w ns n = Some x \<and> same_registration x y)"
  shows "one_each clients stored w'"
proof -
  have "tagged (clients w') (fingerprint y) \<subseteq> {client_id y}"
    if y: "stored w' ns n = Some y" "client_id y \<noteq> []" for ns n y
  proof -
    obtain x where x: "stored w ns n = Some x" "same_registration x y"
      using ob [OF y(1)] y(2) by blast
    have "tag (fingerprint y)" using identity [OF w' y(1)] tag_fingerprint by blast
    then show ?thesis
      using sub x y(2) assms(1) unfolding one_each_def same_registration_def by fastforce
  qed
  then show ?thesis
    using sub assms(1) unfolding one_each_def by (meson subset_trans)
qed

lemma one_each_quiet:
  assumes o: "one_each clients stored w" and w: "good w" and a: "answered E c w w'"
    and q: "\<And>q r. c \<noteq> CRegister q r" "\<And>i m us r. c \<noteq> CUpdateClient i m us r" "\<And>x r. c \<noteq> CUpdateStatus x r"
  shows "one_each clients stored w'"
  using clients_kept [OF w a] objects [OF w a] q
  by (intro one_each_kept [OF o good_kept [OF w a]]) blast+

text \<open>A call that may give one registration the fingerprint of the object \<open>oc\<close> a pass works on.\<close>

lemma one_each_grow:
  assumes o: "one_each clients stored w" and w: "good w" and a: "answered E c w w'" and st: "\<And>x r. c \<noteq> CUpdateStatus x r"
    and k: "known stored oc w" and i: "client_id oc = [] \<or> client_id oc = i"
    and other: "\<And>f. tag f \<Longrightarrow> f \<noteq> fingerprint oc \<Longrightarrow> tagged (clients w') f \<subseteq> tagged (clients w) f"
    and own: "tagged (clients w') (fingerprint oc) \<subseteq> {i}"
  shows "one_each clients stored w'"
proof -
  have "\<exists>j. tagged (clients w') f \<subseteq> {j}" if "tag f" for f
    using that other [OF that] own o unfolding one_each_def by (metis subset_trans)
  moreover have "tagged (clients w') (fingerprint y) \<subseteq> {client_id y}"
    if y: "stored w' ns n = Some y" "client_id y \<noteq> []" for ns n y
  proof -
    obtain x where x: "stored w ns n = Some x" "same_registration x y"
      using objects [OF w a y(1)] y(2) st by blast
    have t: "tag (fingerprint y)" using identity [OF good_kept [OF w a] y(1)] tag_fingerprint by blast
    show ?thesis
    proof (cases "fingerprint y = fingerprint oc")
      case True
      then have "client_id y = client_id oc"
        using k x y(2) by (auto simp: known_def same_registration_def)
      then show ?thesis using own i y(2) True by auto
    next
      case False
      have "tagged (clients w) (fingerprint y) \<subseteq> {client_id y}"
        using o x y(2) unfolding one_each_def same_registration_def by metis
      then show ?thesis using other [OF t False] by blast
    qed
  qed
  ultimately show ?thesis by (simp add: one_each_def)
qed

lemma one_each_status:
  assumes o: "one_each clients stored w" and w: "good w" and a: "answered E (CUpdateStatus x r) w w'"
    and x: "client_id x \<noteq> [] \<Longrightarrow> tagged (clients w) (fingerprint x) \<subseteq> {client_id x}"
  shows "one_each clients stored w'"
proof -
  have sub: "tagged (clients w') f \<subseteq> tagged (clients w) f" if "tag f" for f
    using clients_kept [OF w a that] by blast
  have "tagged (clients w') (fingerprint y) \<subseteq> {client_id y}"
    if y: "stored w' ns n = Some y" "client_id y \<noteq> []" for ns n y
  proof -
    have t: "tag (fingerprint y)" using identity [OF good_kept [OF w a] y(1)] tag_fingerprint by blast
    have "tagged (clients w) (fingerprint y) \<subseteq> {client_id y}"
      using objects [OF w a y(1)] y(2) x o unfolding one_each_def same_registration_def
      by (metis call.inject(3))
    then show ?thesis using sub [OF t] by blast
  qed
  then show ?thesis
    using sub o unfolding one_each_def by (meson subset_trans)
qed

lemma known_step:
  assumes "known stored oc w" and "good w" and "answered E c w w'" and "\<And>x r. c \<noteq> CUpdateStatus x r"
  shows "known stored oc w'"
  using assms(1) objects [OF assms(2,3)] assms(4) unfolding known_def same_registration_def by metis

lemma known_stored:
  assumes "good w" and "stored w ns n = Some oc"
  shows "known stored oc w"
proof -
  have "x = oc" if "stored w ns' n' = Some x" "fingerprint x = fingerprint oc" for ns' n' x
    using identity [OF assms(1) that(1)] identity [OF assms] fingerprint_inj [of x oc] that assms
    by (auto simp: well_named_def)
  then show ?thesis
    using identity [OF assms] by (auto simp: known_def)
qed

text \<open>One guarded call of a live pass.\<close>

lemma live_step:
  assumes o: "one_each clients stored w" and w: "good w" and k: "known stored oc w"
    and p: "phase oc t (tagged (clients w) (fingerprint oc))"
    and g: "live_guard R oc t c" and a: "answered E c w w'"
  shows "one_each clients stored w' \<and> known stored oc w'
    \<and> phase oc (t @ [c]) (tagged (clients w') (fingerprint oc))"
proof -
  let ?f = "fingerprint oc"
  let ?O = "tagged (clients w) ?f" and ?O' = "tagged (clients w') ?f"
  have named: "well_named oc" using k by (simp add: known_def)
  then have t: "tag ?f" by (rule tag_fingerprint)
  have st: "\<And>x r. c \<noteq> CUpdateStatus x r" using g by auto
  note k' = known_step [OF k w a st]
  obtain j where j: "?O \<subseteq> {j}" using o t unfolding one_each_def by blast
  consider q r where "c = CRegister q r" | i m us r where "c = CUpdateClient i m us r"
    | l where "c = CListClients l"
    | "\<And>q r. c \<noteq> CRegister q r" "\<And>i m us r. c \<noteq> CUpdateClient i m us r" "\<And>l. c \<noteq> CListClients l"
    by (cases c) auto
  then show ?thesis
  proof cases
    case (1 q r)
    have q: "q = registration_of oc" "client_id oc = []" "no_fingerprinted oc t" using g 1 by auto
    then have name: "contains (rr_client_name q) f \<longleftrightarrow> f = ?f" if "tag f" for f
      using registered_name_tag [OF named that] by (simp add: registration_of_def)
    obtain i where i: "\<And>f. tag f \<Longrightarrow> tagged (clients w') f
          \<subseteq> tagged (clients w) f \<union> (if contains (rr_client_name q) f then {i} else {})"
        "\<And>fc. r = Inr fc \<Longrightarrow> fc_client_id fc = i"
      using clients_registered [OF w, of q r w'] a 1 by blast
    have O: "?O' \<subseteq> ?O \<union> {i}" using i(1) [OF t] name [OF t] by simp
    have "?O = {}" using p q(3) by (simp add: phase_def)
    then have "?O' \<subseteq> {i}" using O by simp
    then have "one_each clients stored w'"
      using i(1) name q(2) by (intro one_each_grow [OF o w a st k, of i]) fastforce+
    then show ?thesis
      using k' phase_register [OF p q(3,2) O i(2)] 1 by simp
  next
    case (2 i m us r)
    have m: "m = registered_name oc" "ours oc t i" using g 2 by auto
    have name: "contains (trim_space m) f \<longleftrightarrow> f = ?f" if "tag f" for f
      using registered_name_tag [OF named that] registered_name_trimmed named m(1)
      by (simp add: well_named_def)
    have up: "tagged (clients w') f \<subseteq> tagged (clients w) f \<union> (if contains (trim_space m) f then {i} else {})"
      if "tag f" for f using clients_updated [OF w, of i m us r w' f] a 2 that by blast
    have O: "?O' \<subseteq> ?O \<union> {i}" using up [OF t] name [OF t] by simp
    then have "?O' \<subseteq> {i}" using phase_ours [OF p m(2)] by blast
    moreover have "client_id oc = [] \<or> client_id oc = i" using m(2) by (auto simp: ours_def)
    ultimately have "one_each clients stored w'"
      using up name by (intro one_each_grow [OF o w a st k, of i]) fastforce+
    then show ?thesis
      using k' phase_update [OF p m(2) O] 2 by simp
  next
    case (3 l)
    have "?O' \<subseteq> ?O" using clients_kept [OF w a t] 3 by simp
    then have "phase oc (t @ [CListClients l]) ?O'"
      using clients_listed [OF w, of _ w' ?f] a 3 t g by (intro phase_list [OF p _ j]) auto
    then show ?thesis
      using k' one_each_quiet [OF o w a] 3 by simp
  next
    case 4
    have "?O' \<subseteq> ?O" using clients_kept [OF w a t] 4 by blast
    then show ?thesis
      using k' one_each_quiet [OF o w a] phase_quiet [OF p] 4 st by blast
  qed
qed

text \<open>One call of \<open>Reconcile\<close>.\<close>

lemma started_step:
  assumes pr: "progress R ns n clients stored h w" and gw: "good w" and o': "one_each clients stored w'"
    and a: "answered E c w w'" and s: "started R ns n pre oc" "h @ [c] = pre @ t"
    and g: "obeys (live_guard R oc) [] t"
  shows "known stored oc w' \<and> phase oc t (tagged (clients w') (fingerprint oc))"
proof (cases t rule: rev_cases)
  case Nil
  have "\<exists>z. stored w ns n = Some z \<and> same_registration z oc \<and> well_named oc \<and> (\<forall>x r. c \<noteq> CUpdateStatus x r)
      \<and> (\<forall>q r. c \<noteq> CRegister q r) \<and> (\<forall>i m us r. c \<noteq> CUpdateClient i m us r)"
  proof (cases rule: started.cases [OF s(1)])
    case 1
    then have c: "c = CGetOIDC ns n (Inr oc)" using s(2) Nil by simp
    then have w: "stored w ns n = Some oc" using object_read gw a by blast
    then show ?thesis using identity [OF gw w] c by (simp add: same_registration_def)
  next
    case (2 oc0)
    then have c: "c = CUpdateOIDC (with_finalizer R oc0) (Inr oc)" "h = [CGetOIDC ns n (Inr oc0)]"
      using s(2) Nil by simp_all
    have "oc_namespace oc0 = ns \<and> oc_name oc0 = n" using pr c(2) by (simp add: progress_def)
    then show ?thesis
      using object_written [OF gw, of "with_finalizer R oc0" oc w'] a c(1) by (simp add: with_finalizer_def)
  qed
  then obtain z where z: "stored w ns n = Some z" "same_registration z oc" "well_named oc"
    and c: "\<And>x r. c \<noteq> CUpdateStatus x r" "\<And>q r. c \<noteq> CRegister q r" "\<And>i m us r. c \<noteq> CUpdateClient i m us r"
    by blast
  have "known stored oc w"
    using known_stored [OF gw z(1)] z(2,3) by (simp add: known_def same_registration_def)
  then have k: "known stored oc w'" by (rule known_step [OF _ gw a c(1)])
  have "tagged (clients w') (fingerprint oc) \<subseteq> {client_id oc}" if "client_id oc \<noteq> []"
  proof -
    have "tagged (clients w) (fingerprint oc) \<subseteq> {client_id oc}"
      using pr z(1,2) that unfolding progress_def one_each_def same_registration_def by metis
    then show ?thesis using clients_kept [OF gw a tag_fingerprint [OF z(3)]] c by blast
  qed
  then show ?thesis using k Nil phase_start by blast
next
  case (snoc t' c')
  then have h: "h = pre @ t'" "c' = c" using s(2) by simp_all
  have g': "obeys (live_guard R oc) [] t'" "live_guard R oc t' c"
    using g by (simp_all add: snoc h(2) obeys_append)
  have "known stored oc w \<and> phase oc t' (tagged (clients w) (fingerprint oc))"
    using pr s(1) h(1) g'(1) unfolding progress_def by blast
  then show ?thesis
    using live_step [OF _ gw _ _ g'(2) a] pr by (simp add: snoc h(2) progress_def)
qed

lemma deletion_step:
  assumes pr: "progress R ns n clients stored h w" and gw: "good w" and a: "answered E c w w'"
    and h: "h @ [c] = CGetOIDC ns n (Inr oc) # t" and d: "oc_deletion_timestamp oc \<noteq> None"
    and g: "obeys (delete_guard R oc) [] t"
  shows "well_named oc \<and> release_phase oc t (tagged (clients w') (fingerprint oc))"
proof (cases t rule: rev_cases)
  case Nil
  then have c: "c = CGetOIDC ns n (Inr oc)" "h = []" using h by simp_all
  then have w: "stored w ns n = Some oc" using object_read gw a by blast
  have n: "well_named oc" using identity [OF gw w] by blast
  have "tagged (clients w') (fingerprint oc) \<subseteq> {client_id oc}" if "client_id oc \<noteq> []"
    using clients_kept [OF gw a tag_fingerprint [OF n]] pr w that c(1)
    unfolding progress_def one_each_def by blast
  then show ?thesis using n Nil release_phase_start by blast
next
  case (snoc t' c')
  then have h': "h = CGetOIDC ns n (Inr oc) # t'" "c' = c" using h by simp_all
  have g': "obeys (delete_guard R oc) [] t'" "delete_guard R oc t' c"
    using g by (simp_all add: snoc h'(2) obeys_append)
  have p: "well_named oc" "release_phase oc t' (tagged (clients w) (fingerprint oc))"
    using pr h'(1) d g'(1) unfolding progress_def by blast+
  have t: "tag (fingerprint oc)" using p(1) by (rule tag_fingerprint)
  have sub: "tagged (clients w') (fingerprint oc) \<subseteq> tagged (clients w) (fingerprint oc)"
    using clients_kept [OF gw a t] g'(2) by force
  have "release_phase oc (t' @ [c]) (tagged (clients w') (fingerprint oc))"
    using clients_listed [OF gw _ t] client_deleted [OF gw _ _ t] a
    by (intro release_phase_snoc [OF p(2) sub]) blast+
  then show ?thesis using p(1) by (simp add: snoc h'(2))
qed

lemma one_each_step:
  assumes pr: "progress R ns n clients stored h w" and gw: "good w" and g: "reconcile_guard R ns n h c"
    and a: "answered E c w w'"
  shows "one_each clients stored w'"
proof -
  have o: "one_each clients stored w" using pr by (simp add: progress_def)
  show ?thesis
    using g
  proof cases
    case (in_deletion oc t)
    show ?thesis
      by (rule one_each_quiet [OF o gw a]) (use in_deletion(4) in auto)
  next
    case (in_pass pre oc t)
    then have "known stored oc w \<and> phase oc t (tagged (clients w) (fingerprint oc))"
      using pr unfolding progress_def by blast
    then show ?thesis using live_step [OF o gw _ _ in_pass(4) a] by blast
  next
    case (write_status pre oc t x res err r)
    have k: "known stored oc w" "phase oc t (tagged (clients w) (fingerprint oc))"
      using pr write_status(1,3,4) unfolding progress_def by blast+
    have r: "same_object oc x" "recordable R oc t (client_id x)"
      using live_result_status [OF write_status(5)] by blast+
    show ?thesis
      by (rule one_each_status [OF o gw a [unfolded write_status(2)]])
        (use phase_recordable [OF k(2) r(2)] same_objectD(6) [OF r(1)] in simp)
  qed (use one_each_quiet [OF o gw a] in auto)
qed

lemma progress_step:
  assumes pr: "progress R ns n clients stored h w" and gw: "good w" and g: "reconcile_guard R ns n h c"
    and a: "answered E c w w'"
  shows "progress R ns n clients stored (h @ [c]) w'"
proof -
  note o' = one_each_step [OF assms]
  have "oc_namespace oc = ns \<and> oc_name oc = n" if "h @ [c] = [CGetOIDC ns n (Inr oc)]" for oc
  proof -
    have "stored w ns n = Some oc" using that a object_read [OF gw] by (cases h) auto
    then show ?thesis using identity gw by blast
  qed
  then show ?thesis
    unfolding progress_def using o' started_step [OF pr gw o' a] deletion_step [OF pr gw a] by blast
qed

lemma reconcile_progress:
  assumes "reaches E (reconcile R ns n) w h p w'" and "one_each clients stored w" and "good w"
  shows "(progress R ns n clients stored h w' \<and> good w')
    \<and> spec (reconcile_guard R ns n) p h (\<lambda>a h. reconcile_ends R ns n h a)"
proof (rule reaches_invariant [OF assms(1)])
  show "spec (reconcile_guard R ns n) (reconcile R ns n) [] (\<lambda>a h. reconcile_ends R ns n h a)"
    by (rule reconcile_spec)
  show "progress R ns n clients stored [] w \<and> good w"
    using assms(2,3) by (auto simp: progress_def elim: started.cases)
qed (use progress_step good_kept in blast)

lemma reconcile_keeps_one_each:
  assumes "one_each clients stored w" and "good w" and "reaches E (reconcile R ns n) w h p w'"
  shows "one_each clients stored w' \<and> good w'"
  using reconcile_progress [OF assms(3,1,2)] by (simp add: progress_def)

lemma lifetime_one_each:
  assumes "lifetime E R outside w w'" and "one_each clients stored w" and "good w"
  shows "one_each clients stored w' \<and> good w'"
  using assms(1)
proof induction
  case (reconciled w1 ns n h p w2)
  then show ?case using reconcile_keeps_one_each by blast
next
  case (outside w1 w2)
  then have "good w2" using outside_good by blast
  moreover have "one_each clients stored w2"
    using outside outside_clients outside_objects by (intro one_each_kept [OF _ \<open>good w2\<close>]) blast+
  ultimately show ?case by blast
qed (simp add: assms(2,3))

lemma released_clean:
  assumes "one_each clients stored w0" and "good w0" and r: "reaches E (reconcile R ns n) w0 h p w"
    and nx: "next_call E p w = Some (CUpdateOIDC x u, p', w')"
    and h: "h = CGetOIDC ns n (Inr oc) # t" and d: "oc_deletion_timestamp oc \<noteq> None"
    and m: "must_deregister oc"
  shows "tagged (clients w) (fingerprint oc) = {} \<and> x = without_finalizer R oc"
proof -
  have pr: "progress R ns n clients stored h w"
    and s: "spec (reconcile_guard R ns n) p h (\<lambda>a h. reconcile_ends R ns n h a)"
    using reconcile_progress [OF r assms(1,2)] by blast+
  have "reconcile_guard R ns n h (CUpdateOIDC x u)" using next_call_spec [OF s nx] by blast
  then have "obeys (delete_guard R oc) [] t \<and> delete_guard R oc t (CUpdateOIDC x u)"
    unfolding h
  proof cases
    case (in_pass pre oc1 t1)
    then show ?thesis using d by (auto elim: started.cases)
  qed (use d in auto)
  then show ?thesis
    using pr h d m release_phase_done [of oc t] unfolding progress_def by auto
qed

end

end
