(* ===== verification/TsidpFake.thy ===== *)
theory TsidpFake
  imports TsidpClient
begin

text \<open>
  The in-memory tsidp of internal/tsidp/tsidpfake/fake.go: the server the tests run the operator
  against, which records the contract the operator relies on. A handler takes the request and the
  server and returns the response with the new server, or \<open>None\<close> when it panics (a write to a nil
  map). The mutex makes the handlers atomic. \<open>fake_http\<close> delivers a request of the client to the
  handlers; \<open>now\<close> is the time of the exchange as \<open>time.Time\<close> prints it in JSON.
\<close>

section \<open>The server\<close>

record fake_client =
  fk_client_id :: string
  fk_client_secret :: string
  fk_client_name :: string
  fk_redirect_uris :: "string list"
  fk_created_at :: string

record fake_server =
  fs_issuer :: string
  fs_clients :: "fake_client gomap"
  fs_next_id :: nat

definition new_server :: "string \<Rightarrow> fake_server" where
  "new_server url = \<lparr>fs_issuer = url, fs_clients = Some [], fs_next_id = 0\<rparr>"

definition snapshot :: "fake_server \<Rightarrow> fake_client gomap" where
  "snapshot s = Some (gm_entries (fs_clients s))"

definition seed :: "fake_client \<Rightarrow> fake_server \<Rightarrow> fake_server option" where
  "seed c s = map_option (\<lambda>m. s\<lparr>fs_clients := m\<rparr>) (gm_put (fk_client_id c) c (fs_clients s))"

text \<open>A client as the server prints it: empty fields are left out, the time never is.\<close>

definition client_json :: "fake_client \<Rightarrow> json" where
  "client_json c = JObj
     ([(''client_id'', JStr (fk_client_id c))]
      @ omit_string ''client_secret'' (fk_client_secret c)
      @ omit_string ''client_name'' (fk_client_name c)
      @ omit_strings ''redirect_uris'' (fk_redirect_uris c)
      @ [(''created_at'', JStr (fk_created_at c))])"

text \<open>\<open>json.NewEncoder(w).Encode(v)\<close> ends the document with a newline.\<close>

definition json_body :: "json \<Rightarrow> string" where
  "json_body j = json_text j @ [CHR 0x0A]"

definition http_error :: "int \<Rightarrow> string \<Rightarrow> string \<Rightarrow> http_response" where
  "http_error status code desc =
     \<lparr>rs_status = status,
      rs_body = json_body (JObj [(''error'', JStr code), (''error_description'', JStr desc)])\<rparr>"

section \<open>Registration, discovery, list\<close>

type_synonym register_body = "slice \<times> string"

definition store_register_body :: "string \<Rightarrow> json \<Rightarrow> register_body \<Rightarrow> register_body \<times> bool" where
  "store_register_body k j b = (case b of (u, n) \<Rightarrow>
     if key_is ''redirect_uris'' k then (let (x, e) = dec_slice u j in ((x, n), e))
     else if key_is ''client_name'' k then (let (x, e) = dec_string n j in ((u, x), e))
     else (b, False))"

definition decode_register_body :: "json \<Rightarrow> register_body \<times> bool" where
  "decode_register_body j = dec_struct store_register_body (([], []), []) j"

fun decimal :: "nat \<Rightarrow> string" where
  "decimal n = (if n < 10 then [chr (48 + n)] else decimal (n div 10) @ [chr (48 + n mod 10)])"

declare decimal.simps [simp del]

definition serve_register ::
  "string \<Rightarrow> string \<Rightarrow> string \<Rightarrow> fake_server \<Rightarrow> (http_response \<times> fake_server) option" where
  "serve_register now meth body s =
     (if meth \<noteq> ''POST'' then Some (http_error 405 ''invalid_request'' ''method not allowed'', s)
      else case decode_body decode_register_body body of
          Inl err \<Rightarrow> Some (http_error 400 ''invalid_request'' ''invalid request body'', s)
        | Inr ((uris, _), name) \<Rightarrow>
            if uris = []
            then Some (http_error 400 ''invalid_client_metadata'' ''redirect_uris is required'', s)
            else
              let n = fs_next_id s + 1;
                  c = \<lparr>fk_client_id = ''fake-client-'' @ decimal n,
                       fk_client_secret = ''fake-secret-'' @ decimal n,
                       fk_client_name = name, fk_redirect_uris = uris, fk_created_at = now\<rparr>
              in case gm_put (fk_client_id c) c (fs_clients s) of
                   None \<Rightarrow> None
                 | Some m \<Rightarrow> Some (\<lparr>rs_status = 201, rs_body = json_body (client_json c)\<rparr>,
                                   s\<lparr>fs_clients := m, fs_next_id := n\<rparr>))"

definition serve_discovery :: "fake_server \<Rightarrow> http_response" where
  "serve_discovery s = \<lparr>rs_status = 200, rs_body = json_body (JObj
     [(''authorization_endpoint'', JStr (fs_issuer s @ ''/authorize'')),
      (''issuer'', JStr (fs_issuer s)),
      (''jwks_uri'', JStr (fs_issuer s @ ''/.well-known/jwks.json'')),
      (''token_endpoint'', JStr (fs_issuer s @ ''/token'')),
      (''userinfo_endpoint'', JStr (fs_issuer s @ ''/userinfo''))])\<rparr>"

definition blank_secret :: "fake_client \<Rightarrow> fake_client" where
  "blank_secret c = c\<lparr>fk_client_secret := []\<rparr>"

definition serve_list :: "string \<Rightarrow> fake_server \<Rightarrow> http_response" where
  "serve_list meth s =
     (if meth \<noteq> ''GET'' then http_error 405 ''invalid_request'' ''method not allowed''
      else \<lparr>rs_status = 200, rs_body = json_body (JArr
             (map (\<lambda>(k, c). client_json (blank_secret c)) (gm_entries (fs_clients s))))\<rparr>)"

section \<open>One client\<close>

definition serve_client :: "string \<Rightarrow> string \<Rightarrow> fake_server \<Rightarrow> http_response \<times> fake_server" where
  "serve_client meth cid s =
     (let c = gm_get (fs_clients s) cid in
      if meth = ''GET'' then
        (case c of
           None \<Rightarrow> (http_error 404 ''not_found'' ''client not found'', s)
         | Some c \<Rightarrow> (\<lparr>rs_status = 200, rs_body = json_body (client_json (blank_secret c))\<rparr>, s))
      else if meth = ''DELETE'' then
        (case c of
           None \<Rightarrow> (http_error 404 ''not_found'' ''client not found'', s)
         | Some _ \<Rightarrow> (\<lparr>rs_status = 204, rs_body = []\<rparr>, s\<lparr>fs_clients := gm_delete cid (fs_clients s)\<rparr>))
      else (http_error 405 ''invalid_request'' ''method not allowed'', s))"

definition dangerous_schemes :: "string list" where
  "dangerous_schemes = [''javascript:'', ''data:'', ''file:'', ''vbscript:'', ''about:'', ''blob:'',
     ''filesystem:'', ''chrome:'', ''chrome-extension:'', ''ftp:'', ''mailto:'']"

definition edit_rejects :: "string \<Rightarrow> bool" where
  "edit_rejects uri \<longleftrightarrow>
     list_ex (\<lambda>p. has_prefix (to_lower uri) p) dangerous_schemes \<or> \<not> contains uri '':''"

definition html :: "string \<Rightarrow> http_response" where
  "html msg = \<lparr>rs_status = 200, rs_body = ''<html><body>'' @ msg @ ''</body></html>''\<rparr>"

definition form_content_type :: string where
  "form_content_type = ''application/x-www-form-urlencoded''"

text \<open>\<open>ParseForm\<close> reads a body only under the form content type; these requests have no query.\<close>

definition request_form :: "string \<Rightarrow> string \<Rightarrow> (string \<times> string) list option" where
  "request_form ctype body = (if ctype = form_content_type then parse_form body else Some [])"

definition edit_uris :: "(string \<times> string) list \<Rightarrow> string list" where
  "edit_uris form =
     filter (\<lambda>u. u \<noteq> []) (map trim_space (split_on (CHR 0x0A) (form_value form ''redirect_uris'')))"

definition serve_edit ::
  "string \<Rightarrow> string \<Rightarrow> string \<Rightarrow> string \<Rightarrow> fake_server \<Rightarrow> (http_response \<times> fake_server) option" where
  "serve_edit meth cid ctype body s =
     (if meth \<noteq> ''POST'' then Some (http_error 405 ''invalid_request'' ''method not allowed'', s)
      else case request_form ctype body of
          None \<Rightarrow> Some (http_error 400 ''invalid_request'' ''failed to parse form'', s)
        | Some form \<Rightarrow>
      (case gm_get (fs_clients s) cid of
          None \<Rightarrow> Some (http_error 404 ''not_found'' ''client not found'', s)
        | Some c \<Rightarrow>
            let name = trim_space (form_value form ''name''); uris = edit_uris form in
            if uris = [] then Some (html ''error: at least one redirect URI is required'', s)
            else if list_ex edit_rejects uris then Some (html ''error: invalid redirect URI'', s)
            else map_option
              (\<lambda>m. (html ''client updated'', s\<lparr>fs_clients := m\<rparr>))
              (gm_put cid (c\<lparr>fk_client_name := name, fk_redirect_uris := uris\<rparr>) (fs_clients s))))"

section \<open>Dispatch and delivery\<close>

definition serve_http ::
  "string \<Rightarrow> string \<Rightarrow> string \<Rightarrow> string \<Rightarrow> string \<Rightarrow> fake_server \<Rightarrow> (http_response \<times> fake_server) option" where
  "serve_http now meth path ctype body s =
     (if path = ''/register'' then serve_register now meth body s
      else if path = ''/.well-known/openid-configuration'' then Some (serve_discovery s, s)
      else if path = ''/clients/'' \<or> path = ''/clients'' then Some (serve_list meth s, s)
      else if has_prefix path ''/clients/'' then Some (serve_client meth (trim_prefix path ''/clients/'') s)
      else if has_prefix path ''/edit/'' then serve_edit meth (trim_prefix path ''/edit/'') ctype body s
      else Some (http_error 404 ''not_found'' ''not found'', s))"

text \<open>
  A request to the server at \<open>base\<close>: the path of its URL, up to a query or fragment, is unescaped. A
  URL elsewhere, a malformed escape and a panic of the handler are errors of the exchange.
\<close>

definition url_path :: "string \<Rightarrow> string option" where
  "url_path p = path_unescape (takeWhile (\<lambda>c. c \<noteq> CHR ''?'' \<and> c \<noteq> CHR ''#'') p)"

definition fake_http :: "string \<Rightarrow> string \<Rightarrow> fake_server http" where
  "fake_http base now rq s =
     (case (if has_prefix (rq_url rq) base then url_path (trim_prefix (rq_url rq) base) else None) of
        None \<Rightarrow> (Inl (LibError ''url''), s)
      | Some path \<Rightarrow>
          (case serve_http now (rq_method rq) path (rq_content_type rq) (rq_body rq) s of
             None \<Rightarrow> (Inl (LibError ''EOF''), s)
           | Some (resp, s') \<Rightarrow> (Inr resp, s')))"

end
