(* ===== verification/FakeContract.thy ===== *)
theory FakeContract
  imports TsidpFake Reconciler
begin

text \<open>
  The client of client.go talking to the server of fake.go: what each client operation returns and
  does to the server, with every request and response encoded to text and decoded again. Strings
  come back with ill-formed bytes replaced (\<open>utf8\<close>), as JSON does it.
\<close>

section \<open>Text that survives JSON\<close>

lemma utf8_Nil [simp]: "utf8 [] = []"
  by (simp add: utf8_def)

lemma utf8_ascii: "list_all (\<lambda>c. byte c < 128) s \<Longrightarrow> utf8 s = s"
  using ascii_valid_utf8 utf8_valid by blast

lemma utf8_step: "utf8 (c # cs) = (let (r, n) = decode_rune (c # cs) in encode_rune r @ utf8 (drop (n - 1) cs))"
  by (simp add: utf8_def runes_def segs.simps(2) case_prod_beta Let_def)

text \<open>Printed text is well-formed: reading it back gives the same runes.\<close>

lemma decode_encode:
  assumes "decode_rune s = (r, n)" and "s \<noteq> []"
  shows "decode_rune (encode_rune r @ t) = (r, length (encode_rune r))"
proof (cases "r = rune_error")
  case True
  then have "encode_rune r = [chr 239, chr 191, chr 189]" by (simp add: encode_rune_def rune_error_def)
  then show ?thesis using True by (simp add: decode_rune_def second_ok_def is_cont_def rune_error_def byte_chr)
next
  case False
  then have e: "encode_rune r = take n s" using encode_decode [OF assms] by simp
  have "decode_rune (take n s @ t) = (r, n)" using decode_rune_prefix [OF assms] False by simp
  then show ?thesis using e decode_rune_size(2) [OF assms] by simp
qed

lemma runes_utf8: "runes (utf8 s) = runes s"
proof (induction s rule: segs.induct)
  case (2 c cs)
  obtain r n where rn: "decode_rune (c # cs) = (r, n)" by fastforce
  define rest where "rest = drop (n - 1) cs"
  have u: "utf8 (c # cs) = encode_rune r @ utf8 rest" by (simp add: utf8_step rn rest_def)
  have d: "decode_rune (encode_rune r @ utf8 rest) = (r, length (encode_rune r))"
    by (rule decode_encode [OF rn]) simp
  obtain e es where e: "encode_rune r = e # es" by (cases "encode_rune r") (auto simp: encode_rune_def split: if_splits)
  have "runes (utf8 (c # cs)) = r # runes (utf8 rest)"
    using d by (simp add: u e runes_def segs.simps(2))
  moreover have "runes (c # cs) = r # runes rest" by (simp add: runes_def segs.simps(2) rn rest_def)
  ultimately show ?case using "2" rn by (simp add: rest_def)
qed simp

lemma utf8_idem [simp]: "utf8 (utf8 s) = utf8 s"
  unfolding utf8_def [of "utf8 s"] runes_utf8 by (simp add: utf8_def)

text \<open>Outside ASCII, a rune is printed with bytes outside ASCII.\<close>

lemma encode_rune_high: "128 \<le> r \<Longrightarrow> c \<in> set (encode_rune r) \<Longrightarrow> 128 \<le> byte c"
proof -
  have chr: "128 \<le> byte (chr n)" if "128 \<le> n" "n < 256" for n
    using that by (simp add: byte_chr)
  assume "128 \<le> r" "c \<in> set (encode_rune r)"
  then show "128 \<le> byte c"
    by (auto simp: encode_rune_def split: if_splits intro!: chr)
qed

lemma decode_rune_low:
  assumes "decode_rune (c # cs) = (r, n)" and "r < 128"
  shows "n = 1 \<and> r = byte c"
proof (cases "byte c < 128")
  case True
  then show ?thesis using assms(1) by (simp add: decode_rune_ascii)
next
  case False
  have "128 \<le> r"
    using assms(1) False by (auto simp: decode_rune_def rune_error_def second_ok_def split: decode_splits)
  then show ?thesis using assms(2) by simp
qed

lemma prefix_utf8_ascii:
  "list_all (\<lambda>c. byte c < 128) f \<Longrightarrow> prefix f (utf8 s) \<Longrightarrow> prefix f s"
proof (induction f arbitrary: s)
  case (Cons a f)
  then obtain c cs where s: "s = c # cs" by (cases s) auto
  obtain r n where rn: "decode_rune (c # cs) = (r, n)" by fastforce
  have u: "utf8 s = encode_rune r @ utf8 (drop (n - 1) cs)" by (simp add: s utf8_step rn)
  have "encode_rune r \<noteq> []" by (simp add: encode_rune_def)
  then have "a = hd (encode_rune r)" "a \<in> set (encode_rune r)"
    using Cons.prems(2) u by (cases "encode_rune r"; simp)+
  then have low: "r < 128" using encode_rune_high Cons.prems(1) by (metis linorder_not_le list.pred_inject(2))
  then have "n = 1" "r = byte c" using decode_rune_low [OF rn] by simp_all
  then have "utf8 s = c # utf8 cs" using u low by (simp add: encode_rune_def)
  then show ?case using Cons s by simp
qed simp

lemma prefix_skip_high:
  assumes "\<forall>c \<in> set e. 128 \<le> byte c" and "contains (e @ u) f" and "f \<noteq> []" and "byte (hd f) < 128"
  shows "contains u f"
  using assms(1,2)
proof (induction e)
  case (Cons a e)
  have "\<not> prefix f (a # e @ u)" using Cons.prems(1) assms(3,4) by (cases f) auto
  then show ?case using Cons by simp
qed simp

text \<open>ASCII text found in a printed string was there before.\<close>

lemma contains_utf8:
  assumes "list_all (\<lambda>c. byte c < 128) f" and "f \<noteq> []"
  shows "contains (utf8 s) f \<Longrightarrow> contains s f"
proof (induction s rule: segs.induct)
  case 1
  then show ?case by simp
next
  case (2 c cs)
  obtain r n where rn: "decode_rune (c # cs) = (r, n)" by fastforce
  have u: "utf8 (c # cs) = encode_rune r @ utf8 (drop (n - 1) cs)" by (simp add: utf8_step rn)
  have IH: "contains (utf8 (drop (n - 1) cs)) f \<Longrightarrow> contains (drop (n - 1) cs) f"
    using "2.IH" [OF _ refl] rn by metis
  have tail: "contains (drop (n - 1) cs) f \<Longrightarrow> contains (c # cs) f"
    by (metis append_Cons append_take_drop_id contains_iff append_assoc)
  show ?case
  proof (cases "r < 128")
    case True
    then have n: "n = 1" "r = byte c" using decode_rune_low [OF rn] by simp_all
    have "utf8 (c # cs) = c # utf8 cs" using u n True by (simp add: encode_rune_def)
    then consider "prefix f (utf8 (c # cs))" | "contains (utf8 cs) f" using "2.prems" by auto
    then show ?thesis
    proof cases
      case 1
      then show ?thesis using prefix_utf8_ascii [OF assms(1)] by auto
    qed (use IH tail n in simp)
  next
    case False
    have "byte (hd f) < 128" using assms by (cases f) auto
    moreover have "\<forall>c \<in> set (encode_rune r). 128 \<le> byte c" using encode_rune_high False by (meson linorder_not_less)
    ultimately have "contains (utf8 (drop (n - 1) cs)) f"
      using prefix_skip_high "2.prems"[unfolded u] assms(2) by blast
    then show ?thesis using IH tail by blast
  qed
qed

section \<open>Documents of the server\<close>

text \<open>Field names of lower-case letters and underscores match only themselves among such names.\<close>

definition plain_name :: "string \<Rightarrow> bool" where
  "plain_name s \<longleftrightarrow> set s \<subseteq> set ''_abcdefghijklmnopqrstuvwxyz''"

lemma plain_name_bytes: "plain_name s \<Longrightarrow> c \<in> set s \<Longrightarrow> byte c = 95 \<or> 97 \<le> byte c \<and> byte c \<le> 122"
proof -
  have "\<forall>c \<in> set ''_abcdefghijklmnopqrstuvwxyz''. byte c = 95 \<or> 97 \<le> byte c \<and> byte c \<le> 122"
    by (simp add: byte_def)
  then show "plain_name s \<Longrightarrow> c \<in> set s \<Longrightarrow> byte c = 95 \<or> 97 \<le> byte c \<and> byte c \<le> 122"
    unfolding plain_name_def by blast
qed

lemma plain_name_runes: "plain_name s \<Longrightarrow> runes s = map byte s"
  using plain_name_bytes by (intro ascii_runes) (fastforce simp: list_all_iff)

lemma key_is_plain: "plain_name f \<Longrightarrow> plain_name k \<Longrightarrow> key_is f k \<longleftrightarrow> k = f"
proof
  assume p: "plain_name f" "plain_name k" and "key_is f k"
  then have "map (\<lambda>c. fold_rune (byte c)) k = map (\<lambda>c. fold_rune (byte c)) f"
    by (simp add: key_is_def fold_name_def plain_name_runes comp_def)
  moreover have "inj_on (\<lambda>c. fold_rune (byte c)) (set k \<union> set f)"
  proof (rule inj_onI)
    fix c d assume "c \<in> set k \<union> set f" "d \<in> set k \<union> set f" "fold_rune (byte c) = fold_rune (byte d)"
    then have "byte c = byte d"
      using plain_name_bytes [OF p(1)] plain_name_bytes [OF p(2)] by (fastforce simp: fold_rune_def split: if_splits)
    then show "c = d" by (simp add: byte_eq_iff)
  qed
  ultimately show "k = f" by (rule map_inj_on)
qed simp

lemma plain_names [simp]:
  "plain_name ''client_id''" "plain_name ''client_secret''" "plain_name ''client_name''"
  "plain_name ''redirect_uris''" "plain_name ''created_at''"
  "plain_name ''issuer''" "plain_name ''authorization_endpoint''" "plain_name ''token_endpoint''"
  "plain_name ''userinfo_endpoint''" "plain_name ''jwks_uri''"
  "plain_name ''token_endpoint_auth_method''" "plain_name ''grant_types''" "plain_name ''response_types''"
  "plain_name ''client_uri''" "plain_name ''logo_uri''" "plain_name ''scope''" "plain_name ''contacts''"
  "plain_name ''application_type''"
  by (simp_all add: plain_name_def)

lemma plain_name_utf8: "plain_name s \<Longrightarrow> utf8 s = s"
  using plain_name_bytes by (intro utf8_ascii) (fastforce simp: list_all_iff)

definition seen :: "fake_client \<Rightarrow> funnel_client" where
  "seen c = \<lparr>fc_client_id = utf8 (fk_client_id c), fc_client_secret = utf8 (fk_client_secret c),
     fc_client_name = utf8 (fk_client_name c), fc_redirect_uris = map utf8 (fk_redirect_uris c)\<rparr>"

lemma sanitize_strings: "sanitize (json_strings ss) = JArr (map JStr (map utf8 ss))"
  by (simp add: json_strings_def)

lemma dec_slice_nil_strings: "\<exists>st. dec_slice ([], []) (JArr (map JStr ss)) = ((ss, st), False)"
  by (rule dec_slice_strings)

lemma decode_seen: "decode_funnel (sanitize (client_json c)) = (seen c, False)"
proof -
  obtain st where st: "dec_slice ([], []) (JArr (map JStr (map utf8 (fk_redirect_uris c))))
      = ((map utf8 (fk_redirect_uris c), st), False)"
    using dec_slice_strings by blast
  show ?thesis
    using st
    by (simp add: client_json_def decode_funnel_def dec_struct_def store_funnel_def dec_string_def
        omit_string_def omit_strings_def sanitize_strings seen_def key_is_plain plain_name_utf8 del: map_map)
qed

lemma json_strings_shape [simp]: "no_numbers (json_strings ss)" "nesting (json_strings ss) \<le> Suc 0"
proof -
  have "fold max (map nesting (map JStr ss)) m = m" for m by (induction ss) simp_all
  then show "nesting (json_strings ss) \<le> Suc 0" by (simp add: json_strings_def del: map_map)
qed (simp add: json_strings_def)

lemma client_json_shape: "no_numbers (client_json c)" "nesting (client_json c) \<le> 2"
  by (auto simp: client_json_def omit_string_def omit_strings_def fold_max_le numeral_2_eq_2
      intro: le_SucI)

lemma decode_client_body: "decode_body decode_funnel (json_body (client_json c)) = Inr (seen c)"
proof -
  have "nesting (client_json c) \<le> max_nesting"
    using client_json_shape(2) [of c] by (simp add: max_nesting_def)
  then show ?thesis
    using json_decode_printed [OF client_json_shape(1)]
    by (simp add: decode_body_def json_body_def decode_seen)
qed

section \<open>Requests reach their handler\<close>

lemma url_path_plain:
  assumes "\<forall>c \<in> set p. c \<noteq> CHR ''?'' \<and> c \<noteq> CHR ''#'' \<and> c \<noteq> CHR ''%''"
  shows "url_path (p @ path_escape i) = Some (p @ i)"
proof -
  have "takeWhile (\<lambda>c. c \<noteq> CHR ''?'' \<and> c \<noteq> CHR ''#'') (p @ path_escape i) = p @ path_escape i"
    using assms path_escape_no_delim by (auto simp: takeWhile_eq_all_conv)
  moreover have "path_unescape (p @ path_escape i) = Some (p @ i)"
    using assms by (induction p) (simp_all add: path_unescape_def [symmetric], simp_all add: path_unescape_def)
  ultimately show ?thesis unfolding url_path_def by (rule ssubst)
qed

lemma url_path_fixed:
  "\<forall>c \<in> set p. c \<noteq> CHR ''?'' \<and> c \<noteq> CHR ''#'' \<and> c \<noteq> CHR ''%'' \<Longrightarrow> url_path p = Some p"
  using url_path_plain [of p "[]"] by (simp add: path_escape_def)

lemma fake_delivery:
  assumes "url_path p = Some path" and "BaseURL c = base"
  shows "do_request (fake_http base now) c meth p body ctype s =
    (case serve_http now meth path ctype body s of
       None \<Rightarrow> (Inl (LibError ''EOF''), s) | Some (resp, s') \<Rightarrow> (Inr resp, s'))"
  using assms by (simp add: do_request_def fake_http_def has_prefix_def trim_prefix_def split: option.split)

lemma fixed_paths:
  "url_path ''/register'' = Some ''/register''" "url_path ''/clients/'' = Some ''/clients/''"
  "url_path ''/.well-known/openid-configuration'' = Some ''/.well-known/openid-configuration''"
  "url_path (''/clients/'' @ path_escape i) = Some (''/clients/'' @ i)"
  "url_path (''/edit/'' @ path_escape i) = Some (''/edit/'' @ i)"
  by (rule url_path_fixed url_path_plain, simp)+

lemma dispatch:
  "serve_http now meth ''/register'' ctype body s = serve_register now meth body s"
  "serve_http now meth ''/.well-known/openid-configuration'' ctype body s = Some (serve_discovery s, s)"
  "serve_http now meth ''/clients/'' ctype body s = Some (serve_list meth s, s)"
  "i \<noteq> [] \<Longrightarrow> serve_http now meth (''/clients/'' @ i) ctype body s = Some (serve_client meth i s)"
  "serve_http now meth (''/edit/'' @ i) ctype body s = serve_edit meth i ctype body s"
  by (auto simp: serve_http_def has_prefix_def trim_prefix_def)

section \<open>The operations\<close>

lemma decode_funnels_seen:
  "decode_funnels (sanitize (JArr (map client_json cs))) = (map seen cs, False)"
  by (simp add: decode_funnels_def decode_seen comp_def list_ex_iff)

lemma list_fake:
  assumes "BaseURL c = base"
  shows "list_clients (fake_http base now) c s
    = (Inr (map (\<lambda>(k, x). seen (blank_secret x)) (gm_entries (fs_clients s))), s)"
proof -
  let ?cs = "map (\<lambda>(k, x). blank_secret x) (gm_entries (fs_clients s))"
  let ?j = "JArr (map client_json ?cs)"
  have "nesting ?j \<le> Suc 2"
    using client_json_shape(2) by (simp only: nesting.simps Suc_le_mono fold_max_le) auto
  then have n: "nesting ?j \<le> max_nesting" by (simp add: max_nesting_def)
  have "no_numbers ?j" using client_json_shape(1) by auto
  then have d: "json_decode (json_text ?j @ [CHR 0x0A]) = Some (sanitize ?j)"
    using json_decode_printed n by blast
  have b: "rs_body (serve_list ''GET'' s) = json_text ?j @ [CHR 0x0A]" "rs_status (serve_list ''GET'' s) = 200"
    by (simp_all add: serve_list_def json_body_def comp_def case_prod_unfold del: json_text.simps)
  have "decode_body decode_funnels (rs_body (serve_list ''GET'' s)) = Inr (map seen ?cs)"
    unfolding decode_body_def b(1) d using decode_funnels_seen [of ?cs] by simp
  then show ?thesis
    using b(2) by (simp add: list_clients_def fake_delivery [OF fixed_paths(2) assms] dispatch comp_def case_prod_unfold)
qed

lemma get_fake:
  assumes "BaseURL c = base" and "i \<noteq> []"
  shows "get_client (fake_http base now) c i s =
    (case gm_get (fs_clients s) i of
       None \<Rightarrow> (Inl ErrNotFound, s) | Some x \<Rightarrow> (Inr (seen (blank_secret x)), s))"
  unfolding get_client_def fake_delivery [OF fixed_paths(4) assms(1)] dispatch(4) [OF assms(2)]
  by (simp add: serve_client_def http_error_def err_from_response_def decode_client_body
      split: option.split)

lemma delete_fake:
  assumes "BaseURL c = base" and "i \<noteq> []"
  shows "delete_client (fake_http base now) c i s =
    (case gm_get (fs_clients s) i of
       None \<Rightarrow> (Some ErrNotFound, s) | Some x \<Rightarrow> (None, s\<lparr>fs_clients := gm_delete i (fs_clients s)\<rparr>))"
  unfolding delete_client_def fake_delivery [OF fixed_paths(4) assms(1)] dispatch(4) [OF assms(2)]
  by (simp add: serve_client_def http_error_def err_from_response_def split: option.split)

lemma err_from_response_other:
  "rs_status resp \<noteq> 404 \<Longrightarrow> \<not> errors_is (err_from_response resp) ErrNotFound"
  by (auto simp: err_from_response_def Let_def case_prod_beta)

lemma delete_fake_empty:
  assumes "BaseURL c = base" and "delete_client (fake_http base now) c [] s = (d, s')"
  shows "s' = s \<and> delete_failure d \<noteq> None"
proof -
  have "path_escape [] = []" by (simp add: path_escape_def)
  then have "do_request (fake_http base now) c ''DELETE'' (''/clients/'' @ path_escape []) [] [] s
      = (Inr (http_error 405 ''invalid_request'' ''method not allowed''), s)"
    by (simp add: fake_delivery [OF fixed_paths(2) assms(1)] dispatch serve_list_def)
  then have "(d, s') = (Some (err_from_response (http_error 405 ''invalid_request'' ''method not allowed'')), s)"
    using assms(2) by (simp add: delete_client_def http_error_def)
  then show ?thesis
    using err_from_response_other by (simp add: delete_failure_def http_error_def)
qed

lemma registration_json_shape: "no_numbers (registration_json r)" "nesting (registration_json r) \<le> max_nesting"
proof -
  have "nesting (registration_json r) \<le> 2"
    by (auto simp: registration_json_def omit_string_def omit_strings_def fold_max_le numeral_2_eq_2
        intro: le_SucI)
  then show "nesting (registration_json r) \<le> max_nesting" by (simp add: max_nesting_def)
qed (auto simp: registration_json_def omit_string_def omit_strings_def)

lemma decode_registration:
  "\<exists>st. decode_register_body (sanitize (registration_json r))
    = (((map utf8 (rr_redirect_uris r), st), utf8 (rr_client_name r)), False)"
proof -
  obtain st where st: "dec_slice ([], []) (JArr (map JStr (map utf8 (rr_redirect_uris r))))
      = ((map utf8 (rr_redirect_uris r), st), False)"
    using dec_slice_strings by blast
  show ?thesis
    using st
    by (simp add: registration_json_def decode_register_body_def dec_struct_def store_register_body_def
        dec_string_def omit_string_def omit_strings_def sanitize_strings key_is_plain plain_name_utf8
        del: map_map)
qed

definition registered_as :: "string \<Rightarrow> registration_request \<Rightarrow> nat \<Rightarrow> fake_client" where
  "registered_as now r n =
     \<lparr>fk_client_id = ''fake-client-'' @ decimal n, fk_client_secret = ''fake-secret-'' @ decimal n,
      fk_client_name = utf8 (rr_client_name r), fk_redirect_uris = map utf8 (rr_redirect_uris r),
      fk_created_at = now\<rparr>"

lemma decimal_ascii: "list_all (\<lambda>c. byte c < 128) (decimal n)"
proof (induction n rule: decimal.induct)
  case (1 n)
  have "byte (chr (48 + n mod 10)) < 128" by (simp add: byte_chr)
  then show ?case using 1 by (subst decimal.simps) (auto simp: byte_chr)
qed

lemma generated_ascii:
  "list_all (\<lambda>c. byte c < 128) (fk_client_id (registered_as now r n))"
  "list_all (\<lambda>c. byte c < 128) (fk_client_secret (registered_as now r n))"
  using decimal_ascii by (simp_all add: registered_as_def byte_def)

lemma register_fake:
  fixes now :: string
  assumes "BaseURL c = base" and "fs_clients s = Some al" and "rr_redirect_uris r \<noteq> []"
  defines "x \<equiv> registered_as now r (fs_next_id s + 1)"
  shows "register (fake_http base now) c r s
    = (Inr (seen x), s\<lparr>fs_clients := Some (AList.update (fk_client_id x) x al), fs_next_id := fs_next_id s + 1\<rparr>)"
proof -
  obtain st where "decode_register_body (sanitize (registration_json r))
      = (((map utf8 (rr_redirect_uris r), st), utf8 (rr_client_name r)), False)"
    using decode_registration by blast
  then have "decode_body decode_register_body (json_text (registration_json r))
      = Inr ((map utf8 (rr_redirect_uris r), st), utf8 (rr_client_name r))"
    using json_decode_printed [OF registration_json_shape, of r "[]"] by (simp add: decode_body_def)
  then have "serve_register now ''POST'' (json_text (registration_json r)) s
      = Some (\<lparr>rs_status = 201, rs_body = json_body (client_json x)\<rparr>,
          s\<lparr>fs_clients := Some (AList.update (fk_client_id x) x al), fs_next_id := fs_next_id s + 1\<rparr>)"
    using assms(2,3) by (simp add: serve_register_def x_def registered_as_def Let_def)
  moreover have "fc_client_id (seen x) \<noteq> []" "fc_client_secret (seen x) \<noteq> []"
    using generated_ascii utf8_ascii by (simp_all add: seen_def x_def) (simp_all add: registered_as_def)
  ultimately show ?thesis
    unfolding register_def fake_delivery [OF fixed_paths(1) assms(1)] dispatch
    by (simp add: decode_client_body)
qed

lemma register_fake_refused:
  assumes "BaseURL c = base" and "register (fake_http base now) c r s = (g, s')"
    and "fs_clients s = None \<or> rr_redirect_uris r = []"
  shows "s' = s \<and> (\<exists>e. g = Inl e)"
proof -
  obtain st where "decode_register_body (sanitize (registration_json r))
      = (((map utf8 (rr_redirect_uris r), st), utf8 (rr_client_name r)), False)"
    using decode_registration by blast
  then have "decode_body decode_register_body (json_text (registration_json r))
      = Inr ((map utf8 (rr_redirect_uris r), st), utf8 (rr_client_name r))"
    using json_decode_printed [OF registration_json_shape, of r "[]"] by (simp add: decode_body_def)
  then have "serve_register now ''POST'' (json_text (registration_json r)) s = None
      \<or> serve_register now ''POST'' (json_text (registration_json r)) s
        = Some (http_error 400 ''invalid_client_metadata'' ''redirect_uris is required'', s)"
    using assms(3) by (auto simp: serve_register_def Let_def gm_put_def)
  then show ?thesis
    using assms(2) unfolding register_def fake_delivery [OF fixed_paths(1) assms(1)] dispatch
    by (auto simp: http_error_def)
qed

lemma get_fake_state:
  assumes "BaseURL c = base" and "get_client (fake_http base now) c i s = (g, s')"
  shows "s' = s"
proof (cases "i = []")
  case True
  then have "do_request (fake_http base now) c ''GET'' (''/clients/'' @ path_escape i) [] [] s
      = (Inr (serve_list ''GET'' s), s)"
    using fake_delivery [OF fixed_paths(2) assms(1)] by (simp add: dispatch path_escape_def)
  then show ?thesis using assms(2) by (auto simp: get_client_def split: if_splits sum.splits)
next
  case False
  then show ?thesis using assms(2) by (auto simp: get_fake [OF assms(1)] split: option.splits)
qed

definition edited :: "string \<Rightarrow> string list \<Rightarrow> fake_client \<Rightarrow> fake_client" where
  "edited n us x = x\<lparr>fk_client_name := trim_space n, fk_redirect_uris := us\<rparr>"

definition edit_lines :: "string list \<Rightarrow> string list" where
  "edit_lines us = filter (\<lambda>u. u \<noteq> []) (map trim_space (split_on (CHR 0x0A) (join [CHR 0x0A] us)))"

text \<open>The server's side of \<open>UpdateClient\<close>: the form comes through unchanged.\<close>

lemma serve_edit_form:
  fixes us :: "string list" and n :: string
  defines "form \<equiv> form_encode [(''name'', n), (''redirect_uris'', join [CHR 0x0A] us)]"
  shows "serve_edit ''POST'' i form_content_type form s =
    (case gm_get (fs_clients s) i of
       None \<Rightarrow> Some (http_error 404 ''not_found'' ''client not found'', s)
     | Some x \<Rightarrow>
         if edit_lines us = [] then Some (html ''error: at least one redirect URI is required'', s)
         else if list_ex edit_rejects (edit_lines us) then Some (html ''error: invalid redirect URI'', s)
         else map_option (\<lambda>m. (html ''client updated'', s\<lparr>fs_clients := m\<rparr>))
           (gm_put i (edited n (edit_lines us) x) (fs_clients s)))"
proof -
  have "request_form form_content_type form = Some [(''name'', n), (''redirect_uris'', join [CHR 0x0A] us)]"
    by (simp add: request_form_def form_def parse_form_encode)
  then show ?thesis
    by (simp add: serve_edit_def edit_uris_def form_value_def edited_def edit_lines_def Let_def split: option.split)
qed

lemma update_fake_state:
  assumes b: "BaseURL c = base" and u: "update_client (fake_http base now) c i nm us s = (e, s')"
  shows "s' = s \<or> (\<exists>al x us'. fs_clients s = Some al \<and> map_of al i = Some x
    \<and> s' = s\<lparr>fs_clients := Some (AList.update i (edited (trim_space nm) us' x) al)\<rparr>)"
proof -
  let ?form = "form_encode [(''name'', trim_space nm), (''redirect_uris'', join [CHR 0x0A] (normalize_uris us))]"
  let ?r = "do_request (fake_http base now) c ''POST'' (''/edit/'' @ path_escape i) ?form form_content_type s"
  have r: "?r = (case serve_edit ''POST'' i form_content_type ?form s of
      None \<Rightarrow> (Inl (LibError ''EOF''), s) | Some (resp, s1) \<Rightarrow> (Inr resp, s1))"
    using fake_delivery [OF fixed_paths(5) b] dispatch(5) by simp
  have "s' = snd ?r"
    using u get_fake_state [OF b]
    by (auto simp: update_client_def Let_def form_content_type_def split: prod.splits sum.splits if_splits)
  moreover have "snd ?r = s \<or> (\<exists>al x us'. fs_clients s = Some al \<and> map_of al i = Some x
    \<and> snd ?r = s\<lparr>fs_clients := Some (AList.update i (edited (trim_space nm) us' x) al)\<rparr>)"
    unfolding r serve_edit_form
    by (cases "fs_clients s") (auto simp: gm_put_def split: option.split)
  ultimately show ?thesis by simp
qed

end
