(* ===== verification/Manager.thy ===== *)
theory Manager
  imports Reconciler
begin

text \<open>
  The decisions cmd/main.go makes before it hands over to the manager: which namespaces and which
  Secrets the informers watch, and the readiness check. \<open>None\<close> stands for exit code 1. Flag parsing,
  logging and the manager itself are library code.
\<close>

section \<open>The scope of the informers\<close>

datatype cache_scope = AllNamespaces | DefaultNamespaces "unit gomap"

fun add_namespaces :: "string list \<Rightarrow> unit gomap \<Rightarrow> unit gomap option" where
  "add_namespaces [] m = Some m"
| "add_namespaces (ns # nss) m =
     (let ns' = trim_space ns in
      if ns' \<noteq> [] then (case gm_put ns' () m of None \<Rightarrow> None | Some m' \<Rightarrow> add_namespaces nss m')
      else add_namespaces nss m)"

definition watch_scope :: "string \<Rightarrow> cache_scope option" where
  "watch_scope watchNamespaces =
     (if watchNamespaces \<noteq> [] then
        (case add_namespaces (split_on (CHR '','') watchNamespaces) (Some []) of
           None \<Rightarrow> None
         | Some nsMap \<Rightarrow> if gm_keys nsMap = [] then None else Some (DefaultNamespaces nsMap))
      else Some AllNamespaces)"

definition watches :: "cache_scope \<Rightarrow> string \<Rightarrow> bool" where
  "watches sc ns = (case sc of AllNamespaces \<Rightarrow> True | DefaultNamespaces m \<Rightarrow> gm_get m ns \<noteq> None)"

text \<open>The Secrets in the cache carry \<open>ManagedSecretLabels\<close> (a selector of equalities).\<close>

definition secret_selected :: "secret \<Rightarrow> bool" where
  "secret_selected s \<longleftrightarrow> list_all (\<lambda>(k, v). gm_get (s_labels s) k = Some v) ManagedSecretLabels"

definition cached_secret :: "cache_scope \<Rightarrow> secret \<Rightarrow> bool" where
  "cached_secret sc s \<longleftrightarrow> watches sc (s_namespace s) \<and> secret_selected s"

text \<open>The \<open>tsidp\<close> readiness check.\<close>

definition readyz :: "'w http \<Rightarrow> tsidp_client \<Rightarrow> 'w \<Rightarrow> gerr option \<times> 'w" where
  "readyz http c w = (case discovery http c w of
       (Inl err, w') \<Rightarrow> (Some err, w')
     | (Inr _, w') \<Rightarrow> (None, w'))"

section \<open>The namespaces asked for are the namespaces watched\<close>

lemma add_namespaces_keys:
  "\<exists>m'. add_namespaces nss (Some al) = Some (Some m')
     \<and> (\<forall>k. map_of m' k \<noteq> None \<longleftrightarrow> map_of al k \<noteq> None \<or> (\<exists>ns \<in> set nss. trim_space ns = k \<and> k \<noteq> []))"
proof (induction nss arbitrary: al)
  case (Cons ns nss)
  show ?case
  proof (cases "trim_space ns = []")
    case True
    then show ?thesis using Cons.IH [of al] by auto
  next
    case False
    obtain m' where "add_namespaces nss (Some (AList.update (trim_space ns) () al)) = Some (Some m')"
      "\<forall>k. map_of m' k \<noteq> None \<longleftrightarrow> map_of (AList.update (trim_space ns) () al) k \<noteq> None
         \<or> (\<exists>n \<in> set nss. trim_space n = k \<and> k \<noteq> [])"
      using Cons.IH by blast
    then show ?thesis using False by (auto simp: update_conv')
  qed
qed simp

lemma watch_scope_watches:
  assumes "flag \<noteq> []"
  shows "case watch_scope flag of
      None \<Rightarrow> \<forall>ns \<in> set (split_on (CHR '','') flag). trim_space ns = []
    | Some sc \<Rightarrow> sc \<noteq> AllNamespaces
        \<and> (\<forall>k. watches sc k \<longleftrightarrow> k \<noteq> [] \<and> k \<in> trim_space ` set (split_on (CHR '','') flag))"
proof -
  let ?nss = "split_on (CHR '','') flag"
  obtain m where m: "add_namespaces ?nss (Some []) = Some (Some m)"
    "\<And>k. map_of m k \<noteq> None \<longleftrightarrow> (\<exists>ns \<in> set ?nss. trim_space ns = k \<and> k \<noteq> [])"
    using add_namespaces_keys [of ?nss "[]"] by auto
  have keys: "k \<in> fst ` set m \<longleftrightarrow> (\<exists>ns \<in> set ?nss. trim_space ns = k \<and> k \<noteq> [])" for k
    using m(2) [of k] by (metis map_of_eq_None_iff)
  show ?thesis
  proof (cases m)
    case Nil
    then show ?thesis using assms m(1) keys by (auto simp: watch_scope_def gm_keys_def)
  next
    case (Cons e es)
    then have s: "watch_scope flag = Some (DefaultNamespaces (Some m))"
      using assms m(1) by (simp add: watch_scope_def gm_keys_def)
    show ?thesis unfolding s using m(2) by (auto simp: watches_def)
  qed
qed

end
