(* ===== verification/Cluster.thy ===== *)
theory Cluster
  imports Registrations FakeContract Manager
begin

text \<open>
  A closed world for the reconciler: its client talks to the server of fake.go, and the Kubernetes
  API is a small API server with the documented behaviour the code relies on (optimistic concurrency on
  resource versions, a status subresource, objects that go away with their last finalizer, deletion
  preconditions, \<open>CreateOrUpdate\<close> reading through a cache of the managed Secrets). The API server is
  no code of the repository; it is an instance of the laws of the locale \<open>cluster\<close>, which the
  interpretation at the end discharges for this world.
\<close>

section \<open>The world\<close>

record world =
  w_objects :: "string \<times> string \<Rightarrow> oidc_client option"
  w_secrets :: "string \<times> string \<Rightarrow> secret option"
  w_tsidp :: fake_server
  w_events :: "recorded_event list"
  w_clock :: nat
  w_now :: string

abbreviation key_of :: "oidc_client \<Rightarrow> string \<times> string" where
  "key_of oc \<equiv> (oc_namespace oc, oc_name oc)"

definition store_object :: "oidc_client \<Rightarrow> world \<Rightarrow> world" where
  "store_object oc w = w\<lparr>w_objects := (w_objects w)(key_of oc := Some oc), w_clock := w_clock w + 1\<rparr>"

definition drop_object :: "string \<times> string \<Rightarrow> world \<Rightarrow> world" where
  "drop_object k w = w\<lparr>w_objects := (w_objects w)(k := None)\<rparr>"

section \<open>The API server\<close>

definition api_get :: "string \<Rightarrow> string \<Rightarrow> world \<Rightarrow> (kerr + oidc_client) \<times> world" where
  "api_get ns n w = (case w_objects w (ns, n) of None \<Rightarrow> Inl KNotFound | Some oc \<Rightarrow> Inr oc, w)"

definition api_update :: "oidc_client \<Rightarrow> world \<Rightarrow> (kerr + oidc_client) \<times> world" where
  "api_update x w = (case w_objects w (key_of x) of
       None \<Rightarrow> (Inl KNotFound, w)
     | Some cur \<Rightarrow>
         if oc_resource_version x \<noteq> oc_resource_version cur \<or> oc_uid x \<noteq> oc_uid cur then (Inl KConflict, w)
         else if \<not> spec_admitted (Spec x) then (Inl (KOther ''Invalid''), w)
         else (let new = cur\<lparr>oc_resource_version := decimal (w_clock w),
                    oc_generation := (if Spec x = Spec cur then oc_generation cur else oc_generation cur + 1),
                    oc_finalizers := oc_finalizers x, oc_annotations := oc_annotations x, Spec := Spec x\<rparr>
               in (Inr new,
                   if oc_deletion_timestamp new \<noteq> None \<and> oc_finalizers new = []
                   then drop_object (key_of new) w else store_object new w)))"

definition api_update_status :: "oidc_client \<Rightarrow> world \<Rightarrow> (kerr + oidc_client) \<times> world" where
  "api_update_status x w = (case w_objects w (key_of x) of
       None \<Rightarrow> (Inl KNotFound, w)
     | Some cur \<Rightarrow>
         if oc_resource_version x \<noteq> oc_resource_version cur \<or> oc_uid x \<noteq> oc_uid cur then (Inl KConflict, w)
         else (let new = cur\<lparr>oc_resource_version := decimal (w_clock w), Status := Status x\<rparr>
               in (Inr new, store_object new w)))"

definition api_read_secret :: "string \<Rightarrow> string \<Rightarrow> world \<Rightarrow> (kerr + secret) \<times> world" where
  "api_read_secret ns n w = (case w_secrets w (ns, n) of None \<Rightarrow> Inl KNotFound | Some s \<Rightarrow> Inr s, w)"

definition api_delete_secret :: "secret \<Rightarrow> string \<Rightarrow> world \<Rightarrow> kerr option \<times> world" where
  "api_delete_secret s uid w = (case w_secrets w (s_namespace s, s_name s) of
       None \<Rightarrow> (Some KNotFound, w)
     | Some cur \<Rightarrow>
         if s_uid cur \<noteq> uid then (Some KConflict, w)
         else (None, w\<lparr>w_secrets := (w_secrets w)((s_namespace s, s_name s) := None)\<rparr>))"

text \<open>The manager's cache holds the Secrets that carry the operator's labels.\<close>

definition cached :: "secret option \<Rightarrow> secret option" where
  "cached s = (case s of None \<Rightarrow> None
     | Some s \<Rightarrow> if cached_secret AllNamespaces s then Some s else None)"

definition empty_secret :: "string \<Rightarrow> string \<Rightarrow> secret" where
  "empty_secret ns n = \<lparr>s_name = n, s_namespace = ns, s_uid = [], s_created = False,
     s_labels = None, s_annotations = None, s_data = None, s_owner_refs = []\<rparr>"

definition api_upsert_secret ::
  "string \<Rightarrow> string \<Rightarrow> (secret \<Rightarrow> gerr + secret) \<Rightarrow> world \<Rightarrow> gerr option \<times> world" where
  "api_upsert_secret ns n m w =
     (let cur = w_secrets w (ns, n) in case cached cur of
        None \<Rightarrow> (case m (empty_secret ns n) of
            Inl err \<Rightarrow> (Some err, w)
          | Inr s \<Rightarrow>
              if cur \<noteq> None then (Some (KubeError KAlreadyExists), w)
              else (None, w\<lparr>w_secrets := (w_secrets w)((ns, n) :=
                      Some (s\<lparr>s_uid := decimal (w_clock w), s_created := True\<rparr>)),
                      w_clock := w_clock w + 1\<rparr>))
      | Some old \<Rightarrow> (case m old of
            Inl err \<Rightarrow> (Some err, w)
          | Inr s \<Rightarrow> (None, w\<lparr>w_secrets := (w_secrets w)((ns, n) := Some s)\<rparr>)))"

text \<open>A client operation at the present time.\<close>

definition on_tsidp :: "(string \<Rightarrow> fake_server \<Rightarrow> 'r \<times> fake_server) \<Rightarrow> world \<Rightarrow> 'r \<times> world" where
  "on_tsidp f w = (let (r, s) = f (w_now w) (w_tsidp w) in (r, w\<lparr>w_tsidp := s\<rparr>))"

text \<open>The reconciler's environment: the client at \<open>base\<close> against the server.\<close>

definition world_env :: "string \<Rightarrow> world env" where
  "world_env base = (let c = \<lparr>BaseURL = base\<rparr>; http = fake_http base in
     \<lparr>e_get_oidc = api_get, e_update_oidc = api_update, e_update_status = api_update_status,
      e_read_secret = api_read_secret, e_delete_secret = api_delete_secret,
      e_upsert_secret = api_upsert_secret,
      e_emit = (\<lambda>e w. w\<lparr>w_events := w_events w @ [e]\<rparr>),
      e_discovery = on_tsidp (\<lambda>now. discovery (http now) c),
      e_list_clients = on_tsidp (\<lambda>now. list_clients (http now) c),
      e_register = (\<lambda>q. on_tsidp (\<lambda>now. register (http now) c q)),
      e_get_client = (\<lambda>i. on_tsidp (\<lambda>now. get_client (http now) c i)),
      e_delete_client = (\<lambda>i. on_tsidp (\<lambda>now. delete_client (http now) c i)),
      e_update_client = (\<lambda>i n us. on_tsidp (\<lambda>now. update_client (http now) c i n us))\<rparr>)"

section \<open>What the laws speak of\<close>

definition server_clients :: "fake_server \<Rightarrow> (string \<times> string) set" where
  "server_clients s = (\<lambda>(k, x). (fk_client_id x, utf8 (fk_client_name x))) ` set (gm_entries (fs_clients s))"

definition server_ok :: "fake_server \<Rightarrow> bool" where
  "server_ok s \<longleftrightarrow> (\<exists>al. fs_clients s = Some al \<and> distinct (map fst al)
     \<and> (\<forall>(k, x) \<in> set al. fk_client_id x = k \<and> valid_utf8 k))"

definition world_ok :: "world \<Rightarrow> bool" where
  "world_ok w \<longleftrightarrow> server_ok (w_tsidp w)
     \<and> (\<forall>k oc. w_objects w k = Some oc \<longrightarrow> key_of oc = k \<and> well_named oc)"

definition world_clients :: "world \<Rightarrow> (string \<times> string) set" where
  "world_clients w = server_clients (w_tsidp w)"

definition world_objects :: "world \<Rightarrow> string \<Rightarrow> string \<Rightarrow> oidc_client option" where
  "world_objects w ns n = w_objects w (ns, n)"

text \<open>
  Other actors: time passes, a new object without a status replaces one that is gone, a user edits a spec, asks
  for deletion or changes Secrets in any way, and tsidp loses clients.
\<close>

inductive others :: "world \<Rightarrow> world \<Rightarrow> bool" where
  create: "w_objects w (key_of oc) = None \<Longrightarrow> well_named oc \<Longrightarrow> client_id oc = [] \<Longrightarrow>
     others w (store_object oc w)"
| edit: "w_objects w (key_of oc) = Some oc \<Longrightarrow> well_named (oc\<lparr>Spec := sp\<rparr>) \<Longrightarrow>
     others w (store_object (oc\<lparr>Spec := sp, oc_generation := oc_generation oc + 1,
       oc_annotations := an, oc_resource_version := decimal (w_clock w)\<rparr>) w)"
| delete: "w_objects w (key_of oc) = Some oc \<Longrightarrow>
     others w (store_object (oc\<lparr>oc_deletion_timestamp := Some now,
       oc_resource_version := decimal (w_clock w)\<rparr>) w)"
| tick: "others w (w\<lparr>w_now := t\<rparr>)"
| gone: "others w (drop_object k w)"
| secrets: "others w (w\<lparr>w_secrets := ss\<rparr>)"
| lost: "others w (w\<lparr>w_tsidp := (w_tsidp w)\<lparr>fs_clients := Some []\<rparr>\<rparr>)"
| removed: "others w (w\<lparr>w_tsidp := (w_tsidp w)\<lparr>fs_clients := gm_delete i (fs_clients (w_tsidp w))\<rparr>\<rparr>)"

section \<open>The server keeps its form\<close>

lemma server_okE:
  assumes "server_ok s"
  obtains al where "fs_clients s = Some al" "distinct (map fst al)"
    "\<And>k x. (k, x) \<in> set al \<Longrightarrow> fk_client_id x = k \<and> valid_utf8 k"
  using assms unfolding server_ok_def by fast

lemma server_ok_update:
  assumes "server_ok s" and "fs_clients s = Some al" and "fk_client_id x = k" and "valid_utf8 k"
  shows "server_ok (s\<lparr>fs_clients := Some (AList.update k x al), fs_next_id := n\<rparr>)"
    "server_ok (s\<lparr>fs_clients := Some (AList.update k x al)\<rparr>)"
proof -
  have d: "distinct (map fst al)" and ids: "\<And>k x. (k, x) \<in> set al \<Longrightarrow> fk_client_id x = k \<and> valid_utf8 k"
    using assms(1,2) by (auto simp: server_ok_def)
  have "fk_client_id y = j \<and> valid_utf8 j" if "(j, y) \<in> set (AList.update k x al)" for j y
  proof -
    have "map_of (AList.update k x al) j = Some y"
      using that d by (simp add: distinct_update)
    then have "j = k \<and> y = x \<or> (j, y) \<in> set al"
      by (auto simp: update_conv' split: if_splits dest: map_of_SomeD)
    then show ?thesis using ids assms(3,4) by auto
  qed
  then show "server_ok (s\<lparr>fs_clients := Some (AList.update k x al), fs_next_id := n\<rparr>)"
    "server_ok (s\<lparr>fs_clients := Some (AList.update k x al)\<rparr>)"
    using d by (auto simp: server_ok_def distinct_update)
qed

lemma update_members: "set (AList.update k x al) \<subseteq> insert (k, x) (set al)"
  by (induction al) auto

lemma server_ok_delete: "server_ok s \<Longrightarrow> server_ok (s\<lparr>fs_clients := gm_delete i (fs_clients s)\<rparr>)"
  by (auto simp: server_ok_def gm_delete_def AList.delete_eq distinct_map_filter)

lemma server_ok_get: "server_ok s \<Longrightarrow> gm_get (fs_clients s) i = Some x \<Longrightarrow> fk_client_id x = i \<and> valid_utf8 i"
  by (auto simp: server_ok_def dest: map_of_SomeD)

lemma server_clients_update:
  assumes "fs_clients s = Some al" and "distinct (map fst al)"
  shows "server_clients (s\<lparr>fs_clients := Some (AList.update k x al), fs_next_id := n\<rparr>)
      \<subseteq> insert (fk_client_id x, utf8 (fk_client_name x)) (server_clients s)"
    "server_clients (s\<lparr>fs_clients := Some (AList.update k x al)\<rparr>)
      \<subseteq> insert (fk_client_id x, utf8 (fk_client_name x)) (server_clients s)"
proof -
  have "set (AList.update k x al) \<subseteq> insert (k, x) (set al)"
    by (rule update_members)
  then show "server_clients (s\<lparr>fs_clients := Some (AList.update k x al), fs_next_id := n\<rparr>)
      \<subseteq> insert (fk_client_id x, utf8 (fk_client_name x)) (server_clients s)"
    "server_clients (s\<lparr>fs_clients := Some (AList.update k x al)\<rparr>)
      \<subseteq> insert (fk_client_id x, utf8 (fk_client_name x)) (server_clients s)"
    using assms by (auto simp: server_clients_def gm_entries_def)
qed

lemma tag_ascii: "tag f \<Longrightarrow> list_all (\<lambda>c. byte c < 128) f \<and> f \<noteq> []"
proof -
  assume "tag f"
  then obtain oc where oc: "plain_metadata oc" "f = fingerprint oc" by (auto simp: tag_def)
  have plain: "list_all (\<lambda>c. byte c < 128) t" if "list_all plain_char t" for t
    using that by (induction t) (simp_all add: plain_char_def)
  have "list_all plain_char (take_runes 8 (oc_uid oc))"
    using oc(1) take_runes_plain by (simp add: plain_metadata_def)
  then have "list_all (\<lambda>c. byte c < 128) (oc_namespace oc) \<and> list_all (\<lambda>c. byte c < 128) (oc_name oc)
      \<and> list_all (\<lambda>c. byte c < 128) (take_runes 8 (oc_uid oc))"
    using oc(1) plain by (simp add: plain_metadata_def)
  moreover have "list_all (\<lambda>c. byte c < 128) ''[k8s:/]''" by (simp add: byte_def)
  ultimately show ?thesis unfolding oc(2) fingerprint_def by simp
qed

lemma tag_utf8: "tag f \<Longrightarrow> contains (utf8 s) f \<Longrightarrow> contains s f"
  using tag_ascii contains_utf8 by blast

section \<open>What a client operation does to the registrations\<close>

lemma tagged_mono: "C \<subseteq> D \<Longrightarrow> tagged C f \<subseteq> tagged D f"
  by (auto simp: tagged_def)

lemma tagged_insert: "tagged (insert (i, n) C) f = tagged C f \<union> (if contains n f then {i} else {})"
  by (auto simp: tagged_def)

lemma register_effect:
  assumes ok: "server_ok s" and r: "register (fake_http base now) \<lparr>BaseURL = base\<rparr> q s = (g, s')"
  shows "server_ok s' \<and> (\<exists>j. server_clients s' \<subseteq> insert (j, utf8 (utf8 (rr_client_name q))) (server_clients s)
    \<and> (\<forall>fc. g = Inr fc \<longrightarrow> fc_client_id fc = j))"
proof (cases "rr_redirect_uris q = []")
  case True
  then show ?thesis using register_fake_refused [OF _ r] ok by auto
next
  case False
  obtain al where al: "fs_clients s = Some al" "distinct (map fst al)"
    using ok by (auto elim: server_okE)
  define x where "x = registered_as now q (fs_next_id s + 1)"
  have id: "valid_utf8 (fk_client_id x)"
    unfolding x_def by (rule ascii_valid_utf8) (rule generated_ascii)
  have rx: "g = Inr (seen x)"
    "s' = s\<lparr>fs_clients := Some (AList.update (fk_client_id x) x al), fs_next_id := fs_next_id s + 1\<rparr>"
    using r register_fake [OF _ al(1) False] by (simp_all add: x_def)
  have "fc_client_id (seen x) = fk_client_id x" using utf8_valid [OF id] by (simp add: seen_def)
  moreover have "utf8 (fk_client_name x) = utf8 (utf8 (rr_client_name q))" by (simp add: x_def registered_as_def)
  ultimately show ?thesis
    using server_ok_update(1) [OF ok al(1) refl id] server_clients_update(1) [OF al, where k = "fk_client_id x" and x = x]
    unfolding rx by (intro conjI exI [of _ "fk_client_id x"]) auto
qed

lemma delete_effect:
  assumes ok: "server_ok s" and r: "delete_client (fake_http base now) \<lparr>BaseURL = base\<rparr> i s = (d, s')"
  shows "server_ok s' \<and> server_clients s' \<subseteq> server_clients s
    \<and> (delete_failure d = None \<longrightarrow> (\<forall>n. (i, n) \<notin> server_clients s'))"
proof (cases "i = []")
  case True
  then show ?thesis using delete_fake_empty [of "\<lparr>BaseURL = base\<rparr>" base now s d s'] r ok by auto
next
  case False
  obtain al where al: "fs_clients s = Some al" and ids: "\<And>k x. (k, x) \<in> set al \<Longrightarrow> fk_client_id x = k"
    using ok by (auto elim: server_okE)
  have "s' = s\<lparr>fs_clients := gm_delete i (fs_clients s)\<rparr> \<or> (s' = s \<and> map_of al i = None)"
    using r False al by (auto simp: delete_fake split: option.splits)
  then show ?thesis
  proof
    assume s': "s' = s\<lparr>fs_clients := gm_delete i (fs_clients s)\<rparr>"
    have "server_clients s' \<subseteq> server_clients s" "\<forall>n. (i, n) \<notin> server_clients s'"
      using al ids by (auto simp: s' server_clients_def gm_entries_def gm_delete_def AList.delete_eq)
    then show ?thesis using server_ok_delete [OF ok] s' by blast
  next
    assume "s' = s \<and> map_of al i = None"
    then show ?thesis
      using ok al ids by (auto simp: server_clients_def gm_entries_def map_of_eq_None_iff image_iff)
  qed
qed

lemma update_effect:
  assumes ok: "server_ok s" and r: "update_client (fake_http base now) \<lparr>BaseURL = base\<rparr> i nm us s = (u, s')"
  shows "server_ok s' \<and> server_clients s' \<subseteq> insert (i, utf8 (trim_space (trim_space nm))) (server_clients s)"
proof -
  consider "s' = s" | al x us' where "fs_clients s = Some al" "map_of al i = Some x"
      "s' = s\<lparr>fs_clients := Some (AList.update i (edited (trim_space nm) us' x) al)\<rparr>"
    using update_fake_state [OF _ r] by auto
  then show ?thesis
  proof cases
    case 1
    then show ?thesis using ok by blast
  next
    case (2 al x us')
    have d: "distinct (map fst al)" using ok 2(1) by (auto elim: server_okE)
    have x: "fk_client_id x = i" "valid_utf8 i"
      using server_ok_get [OF ok, of i x] 2(1,2) by simp_all
    then show ?thesis
      using server_ok_update(2) [OF ok 2(1), of "edited (trim_space nm) us' x" i]
        server_clients_update(2) [OF 2(1) d, of i "edited (trim_space nm) us' x"]
      by (simp add: 2(3) edited_def)
  qed
qed

lemma discovery_state: "discovery (fake_http base now) \<lparr>BaseURL = base\<rparr> s = (d, s') \<Longrightarrow> s' = s"
  unfolding discovery_def fake_delivery [OF fixed_paths(3) tsidp_client.select_convs(1)] dispatch
  by (auto split: sum.splits if_splits)

lemma list_effect:
  assumes ok: "server_ok s" and r: "list_clients (fake_http base now) \<lparr>BaseURL = base\<rparr> s = (Inr l, s')"
  shows "s' = s \<and> {(fc_client_id fc, fc_client_name fc) | fc. fc \<in> set l} = server_clients s"
proof -
  have l: "s' = s" "l = map (\<lambda>(k, x). seen (blank_secret x)) (gm_entries (fs_clients s))"
    using r list_fake [of "\<lparr>BaseURL = base\<rparr>" base now s] by auto
  have "utf8 (fk_client_id x) = fk_client_id x" if "(k, x) \<in> set (gm_entries (fs_clients s))" for k x
    using that ok utf8_valid by (fastforce simp: server_ok_def gm_entries_def)
  then have "{(fc_client_id fc, fc_client_name fc) | fc. fc \<in> set l} = server_clients s"
    unfolding l(2) server_clients_def by (force simp: seen_def blank_secret_def)
  then show ?thesis using l(1) by blast
qed

lemma list_state: "list_clients (fake_http base now) \<lparr>BaseURL = base\<rparr> s = (l, s') \<Longrightarrow> s' = s"
  using list_fake [of "\<lparr>BaseURL = base\<rparr>" base now s] by simp

section \<open>The laws hold in this world\<close>

lemma world_env_simps [simp]:
  "e_get_oidc (world_env base) = api_get"
  "e_update_oidc (world_env base) = api_update"
  "e_update_status (world_env base) = api_update_status"
  "e_read_secret (world_env base) = api_read_secret"
  "e_delete_secret (world_env base) = api_delete_secret"
  "e_upsert_secret (world_env base) = api_upsert_secret"
  "e_emit (world_env base) e w = w\<lparr>w_events := w_events w @ [e]\<rparr>"
  "e_discovery (world_env base) = on_tsidp (\<lambda>now. discovery (fake_http base now) \<lparr>BaseURL = base\<rparr>)"
  "e_list_clients (world_env base) = on_tsidp (\<lambda>now. list_clients (fake_http base now) \<lparr>BaseURL = base\<rparr>)"
  "e_register (world_env base) q = on_tsidp (\<lambda>now. register (fake_http base now) \<lparr>BaseURL = base\<rparr> q)"
  "e_get_client (world_env base) i = on_tsidp (\<lambda>now. get_client (fake_http base now) \<lparr>BaseURL = base\<rparr> i)"
  "e_delete_client (world_env base) i = on_tsidp (\<lambda>now. delete_client (fake_http base now) \<lparr>BaseURL = base\<rparr> i)"
  "e_update_client (world_env base) i n us
     = on_tsidp (\<lambda>now. update_client (fake_http base now) \<lparr>BaseURL = base\<rparr> i n us)"
  by (simp_all add: world_env_def Let_def)

lemma on_tsidp_eq: "on_tsidp f w = (r, w') \<longleftrightarrow> (\<exists>s. f (w_now w) (w_tsidp w) = (r, s) \<and> w' = w\<lparr>w_tsidp := s\<rparr>)"
  by (auto simp: on_tsidp_def split: prod.splits)

lemma store_object_simps [simp]:
  "w_objects (store_object oc w) = (w_objects w)(key_of oc := Some oc)"
  "w_tsidp (store_object oc w) = w_tsidp w" "w_tsidp (drop_object k w) = w_tsidp w"
  "w_objects (drop_object k w) = (w_objects w)(k := None)"
  by (simp_all add: store_object_def drop_object_def)

text \<open>Calls to the API server leave tsidp alone, calls to tsidp leave the objects alone.\<close>

lemma api_state:
  "api_get ns n w = (g, w') \<Longrightarrow> w' = w"
  "api_update x w = (g, w') \<Longrightarrow> w_tsidp w' = w_tsidp w"
  "api_update_status x w = (g, w') \<Longrightarrow> w_tsidp w' = w_tsidp w"
  "api_read_secret ns n w = (r, w') \<Longrightarrow> w' = w"
  "api_delete_secret s u w = (d, w') \<Longrightarrow> w_tsidp w' = w_tsidp w \<and> w_objects w' = w_objects w"
  "api_upsert_secret ns n m w = (e, w') \<Longrightarrow> w_tsidp w' = w_tsidp w \<and> w_objects w' = w_objects w"
  by (auto simp: api_get_def api_update_def api_update_status_def api_read_secret_def api_delete_secret_def
      api_upsert_secret_def Let_def split: option.splits sum.splits if_splits)

lemma tsidp_answer:
  assumes "answered (world_env base) c w w'" and "w_tsidp w' \<noteq> w_tsidp w"
  shows "w_objects w' = w_objects w \<and>
    ((\<exists>q g. c = CRegister q g) \<or> (\<exists>i d. c = CDeleteClient i d) \<or> (\<exists>i n us u. c = CUpdateClient i n us u))"
  using assms
  by (cases c) (auto simp: on_tsidp_eq
      dest!: api_state get_fake_state [OF tsidp_client.select_convs(1)] list_state discovery_state)

text \<open>How the stored objects can change.\<close>

definition updated_from :: "oidc_client \<Rightarrow> oidc_client \<Rightarrow> oidc_client \<Rightarrow> bool" where
  "updated_from x cur new \<longleftrightarrow> spec_admitted (Spec x) \<and> oc_uid x = oc_uid cur \<and> key_of new = key_of cur
     \<and> oc_uid new = oc_uid cur \<and> Status new = Status cur \<and> Spec new = Spec x"

lemma api_update_cases:
  assumes "api_update x w = (g, w')"
  shows "(w' = w \<and> (\<exists>e. g = Inl e)) \<or> (\<exists>cur new. w_objects w (key_of x) = Some cur \<and> g = Inr new
    \<and> updated_from x cur new \<and> (w' = drop_object (key_of new) w \<or> w' = store_object new w))"
proof (cases "w_objects w (key_of x)")
  case None
  then show ?thesis using assms by (auto simp: api_update_def)
next
  case (Some cur)
  define new where "new = cur\<lparr>oc_resource_version := decimal (w_clock w),
    oc_generation := (if Spec x = Spec cur then oc_generation cur else oc_generation cur + 1),
    oc_finalizers := oc_finalizers x, oc_annotations := oc_annotations x, Spec := Spec x\<rparr>"
  have keep: "key_of new = key_of cur \<and> oc_uid new = oc_uid cur \<and> Status new = Status cur \<and> Spec new = Spec x"
    by (simp add: new_def)
  have "api_update x w = (if oc_resource_version x \<noteq> oc_resource_version cur \<or> oc_uid x \<noteq> oc_uid cur
      then (Inl KConflict, w)
      else if \<not> spec_admitted (Spec x) then (Inl (KOther ''Invalid''), w)
      else (Inr new, if oc_deletion_timestamp new \<noteq> None \<and> oc_finalizers new = []
                     then drop_object (key_of new) w else store_object new w))"
    by (simp only: api_update_def Some option.case Let_def new_def)
  then show ?thesis
    using assms Some keep by (auto simp: updated_from_def split: if_splits)
qed

lemma api_status_cases:
  assumes "api_update_status x w = (g, w')"
  shows "w' = w \<or> (\<exists>cur new. w_objects w (key_of x) = Some cur \<and> oc_uid x = oc_uid cur
    \<and> key_of new = key_of cur \<and> oc_uid new = oc_uid cur \<and> Status new = Status x \<and> Spec new = Spec cur
    \<and> w' = store_object new w)"
proof (cases "w_objects w (key_of x)")
  case None
  then show ?thesis using assms by (simp add: api_update_status_def)
next
  case (Some cur)
  define new where "new = cur\<lparr>oc_resource_version := decimal (w_clock w), Status := Status x\<rparr>"
  have keep: "key_of new = key_of cur \<and> oc_uid new = oc_uid cur \<and> Status new = Status x \<and> Spec new = Spec cur"
    by (simp add: new_def)
  have "api_update_status x w = (if oc_resource_version x \<noteq> oc_resource_version cur \<or> oc_uid x \<noteq> oc_uid cur
      then (Inl KConflict, w) else (Inr new, store_object new w))"
    by (simp only: api_update_status_def Some option.case Let_def new_def)
  then show ?thesis
    using assms Some keep by (auto split: if_splits)
qed

lemma world_okD: "world_ok w \<Longrightarrow> w_objects w k = Some oc \<Longrightarrow> key_of oc = k \<and> well_named oc"
  unfolding world_ok_def by blast

lemma well_named_cong:
  "well_named x \<Longrightarrow> key_of y = key_of x \<Longrightarrow> oc_uid y = oc_uid x \<Longrightarrow> Spec y = Spec x \<Longrightarrow> well_named y"
  by (simp add: well_named_def plain_metadata_def)

lemma same_key_registration:
  "key_of y = key_of x \<Longrightarrow> oc_uid y = oc_uid x \<Longrightarrow> client_id y = client_id x \<Longrightarrow> same_registration x y"
  by (simp add: same_registration_def fingerprint_def)

lemma updated_from_ok:
  "updated_from x cur new \<Longrightarrow> well_named cur \<Longrightarrow> well_named new \<and> same_registration cur new"
  by (simp add: updated_from_def same_key_registration well_named_def plain_metadata_def spec_admitted_def)

lemma object_answer:
  assumes a: "answered (world_env base) c w w'" and ok: "world_ok w" and y: "w_objects w' k = Some y"
  shows "key_of y = k \<and> well_named y \<and>
    ((\<exists>x. w_objects w k = Some x \<and> same_registration x y) \<or> (\<exists>z r. c = CUpdateStatus z r \<and> same_registration z y))"
proof (cases "w_objects w' k = w_objects w k")
  case True
  then have "w_objects w k = Some y" using y by simp
  then show ?thesis using world_okD [OF ok] by (auto simp: same_registration_def)
next
  case False
  then have "w_objects w' \<noteq> w_objects w" by auto
  then consider x g where "c = CUpdateOIDC x g" | x g where "c = CUpdateStatus x g"
    using a by (cases c) (auto simp: on_tsidp_eq dest!: api_state)
  then show ?thesis
  proof cases
    case (1 x g)
    then have "api_update x w = (g, w')" using a by simp
    then obtain cur new where cur: "w_objects w (key_of x) = Some cur" "updated_from x cur new"
      and w': "w' = drop_object (key_of new) w \<or> w' = store_object new w"
      using api_update_cases False by blast
    have key: "key_of cur = key_of x" "well_named cur" using world_okD [OF ok cur(1)] by simp_all
    have "k = key_of new \<and> y = new" using w' False y by (auto split: if_splits)
    then show ?thesis
      using updated_from_ok [OF cur(2) key(2)] cur key(1) by (auto simp: updated_from_def)
  next
    case (2 x g)
    then have "api_update_status x w = (g, w')" using a by simp
    then obtain cur new where cur: "w_objects w (key_of x) = Some cur" "oc_uid x = oc_uid cur"
      "key_of new = key_of cur" "oc_uid new = oc_uid cur" "Status new = Status x" "Spec new = Spec cur"
      and w': "w' = store_object new w"
      using api_status_cases False by blast
    have key: "key_of cur = key_of x" "well_named cur" using world_okD [OF ok cur(1)] by simp_all
    have n: "k = key_of new" "y = new" using w' False y by (auto split: if_splits)
    have "well_named new" by (rule well_named_cong [OF key(2) cur(3,4,6)])
    moreover have "same_registration x new"
      using cur key(1) by (intro same_key_registration) simp_all
    ultimately show ?thesis using n 2 by blast
  qed
qed

lemma server_world: "world_ok w \<Longrightarrow> server_ok (w_tsidp w)"
  by (simp add: world_ok_def)

lemma register_world:
  assumes "world_ok w" and "answered (world_env base) (CRegister q g) w w'"
  shows "server_ok (w_tsidp w') \<and> (\<exists>j. world_clients w' \<subseteq> insert (j, utf8 (utf8 (rr_client_name q))) (world_clients w)
    \<and> (\<forall>fc. g = Inr fc \<longrightarrow> fc_client_id fc = j))"
proof -
  obtain s where s: "register (fake_http base (w_now w)) \<lparr>BaseURL = base\<rparr> q (w_tsidp w) = (g, s)" "w' = w\<lparr>w_tsidp := s\<rparr>"
    using assms(2) by (auto simp: on_tsidp_eq)
  show ?thesis using register_effect [OF server_world [OF assms(1)] s(1)] by (simp add: s(2) world_clients_def)
qed

lemma delete_world:
  assumes "world_ok w" and "answered (world_env base) (CDeleteClient i d) w w'"
  shows "server_ok (w_tsidp w') \<and> world_clients w' \<subseteq> world_clients w
    \<and> (delete_failure d = None \<longrightarrow> (\<forall>n. (i, n) \<notin> world_clients w'))"
proof -
  obtain s where s: "delete_client (fake_http base (w_now w)) \<lparr>BaseURL = base\<rparr> i (w_tsidp w) = (d, s)" "w' = w\<lparr>w_tsidp := s\<rparr>"
    using assms(2) by (auto simp: on_tsidp_eq)
  show ?thesis using delete_effect [OF server_world [OF assms(1)] s(1)] by (simp add: s(2) world_clients_def)
qed

lemma update_world:
  assumes "world_ok w" and "answered (world_env base) (CUpdateClient i nm us u) w w'"
  shows "server_ok (w_tsidp w')
    \<and> world_clients w' \<subseteq> insert (i, utf8 (trim_space (trim_space nm))) (world_clients w)"
proof -
  obtain s where s: "update_client (fake_http base (w_now w)) \<lparr>BaseURL = base\<rparr> i nm us (w_tsidp w) = (u, s)" "w' = w\<lparr>w_tsidp := s\<rparr>"
    using assms(2) by (auto simp: on_tsidp_eq)
  show ?thesis using update_effect [OF server_world [OF assms(1)] s(1)] by (simp add: s(2) world_clients_def)
qed

lemma list_world:
  assumes "world_ok w" and "answered (world_env base) (CListClients (Inr l)) w w'"
  shows "world_clients w' = world_clients w
    \<and> {(fc_client_id fc, fc_client_name fc) | fc. fc \<in> set l} = world_clients w"
proof -
  obtain s where s: "list_clients (fake_http base (w_now w)) \<lparr>BaseURL = base\<rparr> (w_tsidp w) = (Inr l, s)" "w' = w\<lparr>w_tsidp := s\<rparr>"
    using assms(2) by (auto simp: on_tsidp_eq)
  show ?thesis using list_effect [OF server_world [OF assms(1)] s(1)] by (simp add: s(2) world_clients_def)
qed

lemma answered_ok:
  assumes ok: "world_ok w" and a: "answered (world_env base) c w w'"
  shows "world_ok w'"
proof -
  have "server_ok (w_tsidp w')"
  proof (cases "w_tsidp w' = w_tsidp w")
    case False
    then show ?thesis
      using tsidp_answer [OF a False] a register_world [OF ok] delete_world [OF ok] update_world [OF ok] by metis
  qed (use ok in \<open>simp add: world_ok_def\<close>)
  moreover have "key_of y = k \<and> well_named y" if "w_objects w' k = Some y" for k y
    using object_answer [OF a ok that] world_okD [OF ok] by blast
  ultimately show ?thesis by (simp add: world_ok_def)
qed

lemma answered_clients:
  assumes ok: "world_ok w" and a: "answered (world_env base) c w w'"
    and q: "\<And>q r. c \<noteq> CRegister q r" "\<And>i m us r. c \<noteq> CUpdateClient i m us r"
  shows "world_clients w' \<subseteq> world_clients w"
proof (cases "w_tsidp w' = w_tsidp w")
  case False
  then obtain i d where "c = CDeleteClient i d" using tsidp_answer [OF a False] q by blast
  then show ?thesis
    using a delete_world [OF ok] by blast
qed (simp add: world_clients_def)

lemma others_clients: "others w w' \<Longrightarrow> world_clients w' \<subseteq> world_clients w"
proof (induction rule: others.induct)
  case (removed w i)
  then show ?case
    by (auto simp: world_clients_def server_clients_def gm_entries_def gm_delete_def AList.delete_eq split: option.splits)
qed (simp_all add: world_clients_def server_clients_def gm_entries_def)

lemma store_object_ok:
  "world_ok w \<Longrightarrow> well_named oc \<Longrightarrow> world_ok (store_object oc w)"
  by (auto simp: world_ok_def)

lemma others_ok:
  assumes "others w w'" and "world_ok w"
  shows "world_ok w'"
  using assms
proof (induction rule: others.induct)
  case (create w oc)
  then show ?case by (simp add: store_object_ok)
next
  case (edit w oc sp an)
  have "well_named (oc\<lparr>Spec := sp, oc_generation := oc_generation oc + 1,
       oc_annotations := an, oc_resource_version := decimal (w_clock w)\<rparr>)"
    by (rule well_named_cong [OF edit.hyps(2)]) simp_all
  then show ?case by (rule store_object_ok [OF edit.prems])
next
  case (delete w oc now)
  have "well_named oc" using world_okD [OF delete.prems delete.hyps] by blast
  then have "well_named (oc\<lparr>oc_deletion_timestamp := Some now, oc_resource_version := decimal (w_clock w)\<rparr>)"
    by (rule well_named_cong) simp_all
  then show ?case by (rule store_object_ok [OF delete.prems])
next
  case (gone w k)
  then show ?case unfolding world_ok_def by simp
next
  case (removed w i)
  then show ?case unfolding world_ok_def by (simp add: server_ok_delete)
qed (simp_all add: world_ok_def server_ok_def)

lemma others_objects:
  assumes "others w w'" and "w_objects w' k = Some y"
  shows "client_id y = [] \<or> (\<exists>x. w_objects w k = Some x \<and> same_registration x y)"
  using assms
proof (induction rule: others.induct)
  case (edit w oc sp an)
  then show ?case by (auto simp: same_registration_def fingerprint_def split: if_splits)
next
  case (delete w oc now)
  then show ?case by (auto simp: same_registration_def fingerprint_def split: if_splits)
qed (auto simp: same_registration_def split: if_splits)

interpretation world: cluster "world_env base" world_clients world_objects world_ok others
  for base :: string
proof unfold_locales
  fix w w' :: world and c
  assume ok: "world_ok w" and a: "answered (world_env base) c w w'"
  show "world_ok w'" using answered_ok [OF ok a] .
next
  fix w ns n oc
  assume "world_ok w" and "world_objects w ns n = Some oc"
  then have "key_of oc = (ns, n) \<and> well_named oc"
    using world_okD unfolding world_objects_def by blast
  then show "oc_namespace oc = ns \<and> oc_name oc = n \<and> well_named oc" by simp
next
  fix w w' :: world and c ns n y
  assume ok: "world_ok w" and a: "answered (world_env base) c w w'" and y: "world_objects w' ns n = Some y"
  then show "client_id y = [] \<or> (\<exists>x. world_objects w ns n = Some x \<and> same_registration x y)
      \<or> (\<exists>x r. c = CUpdateStatus x r \<and> same_registration x y)"
    using object_answer [OF a ok] unfolding world_objects_def by blast
next
  fix w w' :: world and ns n oc
  assume "answered (world_env base) (CGetOIDC ns n (Inr oc)) w w'"
  then show "world_objects w ns n = Some oc"
    by (auto simp: api_get_def world_objects_def split: option.splits)
next
  fix w w' :: world and x y
  assume ok: "world_ok w" and a: "answered (world_env base) (CUpdateOIDC x (Inr y)) w w'"
  then have "api_update x w = (Inr y, w')" by simp
  then obtain cur where cur: "w_objects w (key_of x) = Some cur" "updated_from x cur y"
    using api_update_cases by blast
  then show "well_named y \<and> (\<exists>z. world_objects w (oc_namespace x) (oc_name x) = Some z \<and> same_registration z y)"
    using updated_from_ok world_okD [OF ok] unfolding world_objects_def by blast
next
  fix w w' :: world and c f
  assume "world_ok w" and "answered (world_env base) c w w'"
    and "\<And>q r. c \<noteq> CRegister q r" and "\<And>i m us r. c \<noteq> CUpdateClient i m us r"
  then show "tagged (world_clients w') f \<subseteq> tagged (world_clients w) f"
    by (intro tagged_mono answered_clients)
next
  fix w w' :: world and q and g :: "gerr + funnel_client"
  assume "world_ok w" and "answered (world_env base) (CRegister q g) w w'"
  then obtain j where j: "world_clients w' \<subseteq> insert (j, utf8 (utf8 (rr_client_name q))) (world_clients w)"
    "\<forall>fc. g = Inr fc \<longrightarrow> fc_client_id fc = j"
    using register_world by blast
  have "tagged (world_clients w') f
      \<subseteq> tagged (world_clients w) f \<union> (if contains (rr_client_name q) f then {j} else {})" if "tag f" for f
    using tagged_mono [OF j(1), of f] tag_utf8 [OF that] by (auto simp: tagged_insert split: if_splits)
  then show "\<exists>j. (\<forall>f. tag f \<longrightarrow> tagged (world_clients w') f
      \<subseteq> tagged (world_clients w) f \<union> (if contains (rr_client_name q) f then {j} else {}))
      \<and> (\<forall>fc. g = Inr fc \<longrightarrow> fc_client_id fc = j)"
    using j(2) by blast
next
  fix w w' :: world and i m us u f
  assume "world_ok w" and "answered (world_env base) (CUpdateClient i m us u) w w'" and t: "tag f"
  then have s: "world_clients w' \<subseteq> insert (i, utf8 (trim_space (trim_space m))) (world_clients w)"
    using update_world by blast
  show "tagged (world_clients w') f
      \<subseteq> tagged (world_clients w) f \<union> (if contains (trim_space m) f then {i} else {})"
  proof -
    have "contains (utf8 (trim_space (trim_space m))) f \<Longrightarrow> contains (trim_space m) f"
      using tag_utf8 [OF t] contains_trim_space by blast
    then show ?thesis using tagged_mono [OF s, of f] by (auto simp: tagged_insert split: if_splits)
  qed
next
  fix w w' :: world and l f
  assume "world_ok w" and "answered (world_env base) (CListClients (Inr l)) w w'"
  then have same: "world_clients w' = world_clients w"
    and l: "{(fc_client_id fc, fc_client_name fc) | fc. fc \<in> set l} = world_clients w"
    using list_world by blast+
  have mem: "(i, n) \<in> world_clients w \<longleftrightarrow> (\<exists>fc \<in> set l. fc_client_id fc = i \<and> fc_client_name fc = n)" for i n
    unfolding l [symmetric] by blast
  show "(\<forall>fc \<in> set l. contains (fc_client_name fc) f \<longrightarrow> fc_client_id fc \<in> tagged (world_clients w) f)
      \<and> (\<forall>i \<in> tagged (world_clients w') f. \<exists>fc \<in> set l. fc_client_id fc = i \<and> contains (fc_client_name fc) f)"
    unfolding same tagged_def mem by blast
next
  fix w w' :: world and i d f
  assume "world_ok w" and "answered (world_env base) (CDeleteClient i d) w w'" and "delete_failure d = None"
  then show "i \<notin> tagged (world_clients w') f"
    using delete_world unfolding tagged_def by blast
next
  fix w w' :: world
  show "world_ok w \<Longrightarrow> others w w' \<Longrightarrow> world_ok w'" by (rule others_ok)
next
  fix w w' :: world and f
  assume "others w w'"
  then show "tagged (world_clients w') f \<subseteq> tagged (world_clients w) f"
    by (intro tagged_mono others_clients)
next
  fix w w' :: world and ns n y
  assume "others w w'" and "world_objects w' ns n = Some y"
  then show "client_id y = [] \<or> (\<exists>x. world_objects w ns n = Some x \<and> same_registration x y)"
    using others_objects by (auto simp: world_objects_def)
qed

end
