(* ===== verification/Registry.thy ===== *)
theory Registry
  imports FakeContract
begin

text \<open>
  The abstract specification of tsidp's client registry, as the operator's HTTP client sees it: a map
  from identifiers to names and redirect URIs. The locale \<open>registry\<close> is the contract of the five
  client operations over such a map; its interpretation shows that the operations of client.go,
  talking to the server of fake.go, implement it. The lemmas of the locale are what the
  reconciler relies on: a registration stays as it is until its own client is deleted or
  updated, and reads never reveal a secret.
\<close>

section \<open>The abstract registry\<close>

type_synonym registry = "string \<rightharpoonup> string \<times> string list"

datatype client_op =
    OpList
  | OpGet string
  | OpDelete string
  | OpRegister registration_request
  | OpUpdate string string "string list"

text \<open>The URIs of an update the server accepts.\<close>

definition edit_accepted :: "string list \<Rightarrow> bool" where
  "edit_accepted us \<longleftrightarrow> edit_lines (normalize_uris us) \<noteq> []
     \<and> \<not> list_ex edit_rejects (edit_lines (normalize_uris us))"

text \<open>The operations on the abstract map; a registration gets an identifier not in use.\<close>

inductive registry_step :: "client_op \<Rightarrow> registry \<Rightarrow> registry \<Rightarrow> bool" where
  "registry_step OpList m m"
| "registry_step (OpGet i) m m"
| "registry_step (OpDelete i) m (m(i := None))"
| "rr_redirect_uris q \<noteq> [] \<Longrightarrow> i \<noteq> [] \<Longrightarrow> m i = None \<Longrightarrow>
     registry_step (OpRegister q) m (m(i \<mapsto> (utf8 (rr_client_name q), map utf8 (rr_redirect_uris q))))"
| "rr_redirect_uris q = [] \<Longrightarrow> registry_step (OpRegister q) m m"
| "m i \<noteq> None \<Longrightarrow> edit_accepted us \<Longrightarrow> registry_step (OpUpdate i n us) m
     (m(i \<mapsto> (utf8 (trim_space n), map utf8 (edit_lines (normalize_uris us)))))"
| "m i = None \<or> \<not> edit_accepted us \<Longrightarrow> registry_step (OpUpdate i n us) m m"

inductive_cases step_delete: "registry_step (OpDelete i) m m'"
inductive_cases step_update: "registry_step (OpUpdate i n us) m m'"
inductive_cases step_register: "registry_step (OpRegister q) m m'"
inductive_simps step_reads [simp]: "registry_step OpList m m'" "registry_step (OpGet i) m m'"

text \<open>The registration an operation may change.\<close>

fun op_target :: "client_op \<Rightarrow> string option" where
  "op_target (OpDelete i) = Some i"
| "op_target (OpUpdate i n us) = Some i"
| "op_target op = None"

lemma registry_step_frame:
  "registry_step op m m' \<Longrightarrow> op_target op \<noteq> Some i \<Longrightarrow> m i \<noteq> None \<Longrightarrow> m' i = m i"
  by (induction rule: registry_step.induct) auto

section \<open>The contract\<close>

locale registry =
  fixes view :: "'s \<Rightarrow> registry"
    and inv :: "'s \<Rightarrow> bool"
    and list_op :: "'s \<Rightarrow> (gerr + funnel_client list) \<times> 's"
    and get_op :: "string \<Rightarrow> 's \<Rightarrow> (gerr + funnel_client) \<times> 's"
    and register_op :: "registration_request \<Rightarrow> 's \<Rightarrow> (gerr + funnel_client) \<times> 's"
    and step :: "client_op \<Rightarrow> 's \<Rightarrow> 's"
  assumes inv_step: "inv s \<Longrightarrow> inv (step op s)"
    and view_step: "inv s \<Longrightarrow> registry_step op (view s) (view (step op s))"
    and listing: "inv s \<Longrightarrow> \<exists>l. list_op s = (Inr l, s) \<and> distinct (map fc_client_id l)
      \<and> (\<forall>i n us. view s i = Some (n, us) \<longleftrightarrow>
            \<lparr>fc_client_id = i, fc_client_secret = [], fc_client_name = n, fc_redirect_uris = us\<rparr> \<in> set l)
      \<and> (\<forall>fc \<in> set l. fc_client_secret fc = [])"
    and getting: "inv s \<Longrightarrow> i \<noteq> [] \<Longrightarrow> get_op i s = (case view s i of
        None \<Rightarrow> (Inl ErrNotFound, s)
      | Some (n, us) \<Rightarrow> (Inr \<lparr>fc_client_id = i, fc_client_secret = [], fc_client_name = n, fc_redirect_uris = us\<rparr>, s))"
    and registering: "inv s \<Longrightarrow> register_op q s = (Inr fc, s') \<Longrightarrow> s' = step (OpRegister q) s
      \<and> fc_client_id fc \<noteq> [] \<and> view s (fc_client_id fc) = None
      \<and> view s' (fc_client_id fc) = Some (utf8 (rr_client_name q), map utf8 (rr_redirect_uris q))"
begin

lemma steps_keep:
  assumes "inv s" and "view s i = Some v" and "\<forall>op \<in> set ops. op_target op \<noteq> Some i"
  shows "inv (fold step ops s) \<and> view (fold step ops s) i = Some v"
  using assms
proof (induction ops arbitrary: s)
  case (Cons op ops)
  have "view (step op s) i = Some v"
    using registry_step_frame [OF view_step [OF Cons.prems(1)], of op i] Cons.prems(2,3) by simp
  then show ?case using Cons inv_step by simp
qed simp

lemma registered_stays:
  assumes "inv s" and "register_op q s = (Inr fc, s1)" and "\<forall>op \<in> set ops. op_target op \<noteq> Some (fc_client_id fc)"
  shows "\<exists>s2. get_op (fc_client_id fc) (fold step ops s1)
    = (Inr \<lparr>fc_client_id = fc_client_id fc, fc_client_secret = [], fc_client_name = utf8 (rr_client_name q),
            fc_redirect_uris = map utf8 (rr_redirect_uris q)\<rparr>, s2)"
proof -
  have r: "s1 = step (OpRegister q) s" "fc_client_id fc \<noteq> []"
    "view s1 (fc_client_id fc) = Some (utf8 (rr_client_name q), map utf8 (rr_redirect_uris q))"
    using registering [OF assms(1,2)] by blast+
  have "inv s1" unfolding r(1) using inv_step [OF assms(1)] by blast
  then have "inv (fold step ops s1) \<and> view (fold step ops s1) (fc_client_id fc)
      = Some (utf8 (rr_client_name q), map utf8 (rr_redirect_uris q))"
    using steps_keep r(3) assms(3) by blast
  then show ?thesis using getting r(2) by simp
qed

lemma deleted_is_gone:
  assumes "inv s" and "i \<noteq> []"
  shows "get_op i (step (OpDelete i) s) = (Inl ErrNotFound, step (OpDelete i) s)"
proof -
  have "view (step (OpDelete i) s) i = None"
    using view_step [OF assms(1), of "OpDelete i"] by (auto elim: step_delete)
  then show ?thesis using getting [OF inv_step [OF assms(1)] assms(2)] by simp
qed

end

section \<open>The client over the server implements it\<close>

text \<open>One operation of the client.\<close>

fun client_step :: "'w http \<Rightarrow> tsidp_client \<Rightarrow> client_op \<Rightarrow> 'w \<Rightarrow> 'w" where
  "client_step http c OpList w = snd (list_clients http c w)"
| "client_step http c (OpGet i) w = snd (get_client http c i w)"
| "client_step http c (OpDelete i) w = snd (delete_client http c i w)"
| "client_step http c (OpRegister q) w = snd (register http c q w)"
| "client_step http c (OpUpdate i n us) w = snd (update_client http c i n us w)"

definition server_view :: "fake_server \<Rightarrow> registry" where
  "server_view s i = map_option (\<lambda>x. (utf8 (fk_client_name x), map utf8 (fk_redirect_uris x)))
     (gm_get (fs_clients s) i)"

text \<open>
  The states of a server that was not seeded with a generated identifier ahead of its counter: identifiers
  are keys of their own clients, text and not empty, and a generated one is behind the counter.
\<close>

definition entry_ok :: "nat \<Rightarrow> string \<Rightarrow> fake_client \<Rightarrow> bool" where
  "entry_ok next k x \<longleftrightarrow> fk_client_id x = k \<and> valid_utf8 k \<and> k \<noteq> []
     \<and> (\<forall>n. k = ''fake-client-'' @ decimal n \<longrightarrow> n \<le> next)"

definition server_fresh :: "fake_server \<Rightarrow> bool" where
  "server_fresh s \<longleftrightarrow> (case fs_clients s of
       None \<Rightarrow> False
     | Some al \<Rightarrow> distinct (map fst al) \<and> (\<forall>k x. map_of al k = Some x \<longrightarrow> entry_ok (fs_next_id s) k x))"

lemma server_fresh_Some:
  "fs_clients s = Some al \<Longrightarrow>
   server_fresh s \<longleftrightarrow> distinct (map fst al) \<and> (\<forall>k x. map_of al k = Some x \<longrightarrow> entry_ok (fs_next_id s) k x)"
  by (simp add: server_fresh_def)

lemma server_freshE:
  assumes "server_fresh s"
  obtains al where "fs_clients s = Some al" "distinct (map fst al)"
    "\<And>k x. map_of al k = Some x \<Longrightarrow> entry_ok (fs_next_id s) k x"
  using assms by (auto simp: server_fresh_def split: option.splits)

lemma entry_okD: "entry_ok n k x \<Longrightarrow> fk_client_id x = k \<and> utf8 k = k \<and> k \<noteq> []"
  using utf8_valid by (auto simp: entry_ok_def)

definition decimal_value :: "string \<Rightarrow> nat" where
  "decimal_value s = foldl (\<lambda>a c. 10 * a + (byte c - 48)) 0 s"

lemma decimal_value_decimal: "decimal_value (decimal n) = n"
proof (induction n rule: decimal.induct)
  case (1 n)
  have b: "byte (chr (48 + m)) = 48 + m" if "m < 10" for m using that by (simp add: byte_chr)
  show ?case
  proof (cases "n < 10")
    case True
    then show ?thesis using b by (subst decimal.simps) (simp add: decimal_value_def)
  next
    case False
    then have "decimal_value (decimal (n div 10)) = n div 10" by (rule 1)
    then show ?thesis using False b by (subst decimal.simps) (simp add: decimal_value_def)
  qed
qed

lemma decimal_inj: "decimal m = decimal n \<longleftrightarrow> m = n"
  by (metis decimal_value_decimal)

lemma fresh_identifier:
  assumes "server_fresh s"
  shows "server_view s (''fake-client-'' @ decimal (fs_next_id s + 1)) = None"
proof (rule ccontr)
  assume n: "server_view s (''fake-client-'' @ decimal (fs_next_id s + 1)) \<noteq> None"
  obtain al where al: "fs_clients s = Some al" "\<And>k x. map_of al k = Some x \<Longrightarrow> entry_ok (fs_next_id s) k x"
    using server_freshE [OF assms] by metis
  obtain x where "map_of al (''fake-client-'' @ decimal (fs_next_id s + 1)) = Some x"
    using n al(1) by (auto simp: server_view_def)
  from al(2) [OF this] show False by (auto simp: entry_ok_def)
qed

lemma server_view_none: "server_view s i = None \<longleftrightarrow> gm_get (fs_clients s) i = None"
  by (simp add: server_view_def)

text \<open>What one operation leaves of the server's table.\<close>

lemma fresh_delete:
  assumes "server_fresh s"
  shows "server_fresh (s\<lparr>fs_clients := gm_delete i (fs_clients s)\<rparr>)"
proof -
  obtain al where al: "fs_clients s = Some al" using assms by (rule server_freshE)
  then show ?thesis
    using assms by (simp add: server_fresh_Some gm_delete_def distinct_delete delete_conv')
qed

lemma fresh_edit:
  assumes "server_fresh s" and "fs_clients s = Some al" and "map_of al i = Some x"
  shows "server_fresh (s\<lparr>fs_clients := Some (AList.update i (edited n us x) al)\<rparr>)"
proof -
  have "entry_ok m k (edited n us x) = entry_ok m k x" for m k
    by (simp add: entry_ok_def edited_def)
  then show ?thesis
    using assms by (simp add: server_fresh_Some distinct_update update_conv')
qed

lemma fresh_insert:
  assumes "server_fresh s" and "fs_clients s = Some al" and x: "fk_client_id x = ''fake-client-'' @ decimal (fs_next_id s + 1)"
  shows "server_fresh (s\<lparr>fs_clients := Some (AList.update (fk_client_id x) x al), fs_next_id := fs_next_id s + 1\<rparr>)"
proof -
  have "valid_utf8 (fk_client_id x)"
    unfolding x
    by (rule ascii_valid_utf8) (rule generated_ascii(1) [unfolded registered_as_def fake_client.select_convs])
  then have "entry_ok (fs_next_id s + 1) (fk_client_id x) x"
    by (simp add: entry_ok_def x decimal_inj)
  moreover have "entry_ok n k y \<Longrightarrow> entry_ok (n + 1) k y" for n k y
    by (auto simp: entry_ok_def intro: le_SucI)
  ultimately show ?thesis
    using assms(1,2) by (simp add: server_fresh_Some distinct_update update_conv')
qed

lemma fresh_register:
  fixes now :: string and r :: registration_request
  assumes "server_fresh s" and "fs_clients s = Some al"
  defines "x \<equiv> registered_as now r (fs_next_id s + 1)"
  shows "server_fresh (s\<lparr>fs_clients := Some (AList.update (fk_client_id x) x al), fs_next_id := fs_next_id s + 1\<rparr>)"
  by (rule fresh_insert [OF assms(1,2)]) (simp add: x_def registered_as_def)

section \<open>The update\<close>

text \<open>The server's answer to the form of \<open>UpdateClient\<close>: 404, or 200 whether it took the edit or not.\<close>

lemma edit_delivered:
  fixes us :: "string list" and nm :: string and i :: string and now :: string
  assumes b: "BaseURL c = base" and al: "fs_clients s = Some al"
  defines "r \<equiv> do_request (fake_http base now) c ''POST'' (''/edit/'' @ path_escape i)
    (form_encode [(''name'', trim_space nm), (''redirect_uris'', join [CHR 0x0A] (normalize_uris us))]) form_content_type s"
  shows "map_of al i = None \<Longrightarrow> \<exists>resp. r = (Inr resp, s) \<and> rs_status resp = 404"
    and "map_of al i = Some x \<Longrightarrow> \<exists>resp. rs_status resp = 200 \<and> r = (Inr resp, if edit_accepted us
      then s\<lparr>fs_clients := Some (AList.update i (edited (trim_space nm) (edit_lines (normalize_uris us)) x) al)\<rparr> else s)"
proof -
  have "r = (case serve_edit ''POST'' i form_content_type
      (form_encode [(''name'', trim_space nm), (''redirect_uris'', join [CHR 0x0A] (normalize_uris us))]) s of
      None \<Rightarrow> (Inl (LibError ''EOF''), s) | Some (resp, s1) \<Rightarrow> (Inr resp, s1))"
    unfolding r_def fake_delivery [OF fixed_paths(5) b] dispatch(5) ..
  note r = this [unfolded serve_edit_form]
  show "map_of al i = None \<Longrightarrow> \<exists>resp. r = (Inr resp, s) \<and> rs_status resp = 404"
    by (simp add: r al http_error_def)
  show "map_of al i = Some x \<Longrightarrow> \<exists>resp. rs_status resp = 200 \<and> r = (Inr resp, if edit_accepted us
      then s\<lparr>fs_clients := Some (AList.update i (edited (trim_space nm) (edit_lines (normalize_uris us)) x) al)\<rparr> else s)"
    by (simp add: r al html_def edit_accepted_def)
qed

lemma update_fake:
  assumes b: "BaseURL c = base" and al: "fs_clients s = Some al" and i: "i \<noteq> []"
    and u: "update_client (fake_http base now) c i nm us s = (d, s')"
  shows "(s' = (case map_of al i of None \<Rightarrow> s
      | Some x \<Rightarrow> if edit_accepted us
          then s\<lparr>fs_clients := Some (AList.update i (edited (trim_space nm) (edit_lines (normalize_uris us)) x) al)\<rparr> else s))
    \<and> (d = None \<longleftrightarrow> (\<exists>vs. server_view s' i = Some (trim_space nm, vs) \<and> mset vs = mset (normalize_uris us)))"
proof (cases "map_of al i")
  case None
  obtain resp where r: "do_request (fake_http base now) c ''POST'' (''/edit/'' @ path_escape i)
    (form_encode [(''name'', trim_space nm), (''redirect_uris'', join [CHR 0x0A] (normalize_uris us))]) form_content_type s
    = (Inr resp, s)" "rs_status resp = 404"
    using edit_delivered(1) [OF b al None] by blast
  have "(d, s') = (Some (ApiError 404 [] ''update via /edit failed''), s)"
    using u [unfolded update_client_def Let_def form_content_type_def [symmetric] r(1)] r(2) by simp
  then show ?thesis using None al by (simp add: server_view_def)
next
  case (Some x)
  define s1 where "s1 = (if edit_accepted us
    then s\<lparr>fs_clients := Some (AList.update i (edited (trim_space nm) (edit_lines (normalize_uris us)) x) al)\<rparr> else s)"
  obtain resp where r: "do_request (fake_http base now) c ''POST'' (''/edit/'' @ path_escape i)
    (form_encode [(''name'', trim_space nm), (''redirect_uris'', join [CHR 0x0A] (normalize_uris us))]) form_content_type s
    = (Inr resp, s1)" "rs_status resp = 200"
    using edit_delivered(2) [OF b al Some] unfolding s1_def by blast
  obtain y where y: "gm_get (fs_clients s1) i = Some y" 
    using Some al by (cases "edit_accepted us") (simp_all add: s1_def update_conv')
  have g: "get_client (fake_http base now) c i s1 = (Inr (seen (blank_secret y)), s1)"
    by (simp add: get_fake [OF b i] y)
  have "s' = s1 \<and> (d = None \<longleftrightarrow> utf8 (fk_client_name y) = trim_space nm
      \<and> mset (map utf8 (fk_redirect_uris y)) = mset (normalize_uris us))"
    using u [unfolded update_client_def Let_def form_content_type_def [symmetric] r(1)] r(2) g
    by (auto simp: same_set_mset seen_def blank_secret_def split: if_splits)
  then show ?thesis using Some y by (simp add: s1_def server_view_def)
qed

section \<open>The interpretation\<close>

text \<open>Each operation takes the table the way the specification says and keeps it well formed.\<close>

lemma no_empty_identifier:
  assumes "server_fresh s" and "fs_clients s = Some al"
  shows "map_of al [] = None"
proof -
  have "\<not> entry_ok m [] x" for m x by (simp add: entry_ok_def)
  then show ?thesis using assms(1) server_fresh_Some [OF assms(2)] by (metis option.exhaust)
qed

abbreviation refines :: "string \<Rightarrow> string \<Rightarrow> tsidp_client \<Rightarrow> fake_server \<Rightarrow> client_op \<Rightarrow> bool" where
  "refines base now c s op \<equiv> server_fresh (client_step (fake_http base now) c op s)
     \<and> registry_step op (server_view s) (server_view (client_step (fake_http base now) c op s))"

lemma delete_refines:
  assumes f: "server_fresh s" and b: "BaseURL c = base" and al: "fs_clients s = Some al"
  shows "refines base now c s (OpDelete i)"
proof (cases "i = []")
  case True
  have "snd (delete_client (fake_http base now) c [] s) = s"
    using delete_fake_empty [OF b] by (metis prod.collapse)
  moreover have "(server_view s)([] := None) = server_view s"
    using al no_empty_identifier [OF f al] by (simp add: server_view_none fun_upd_idem)
  ultimately show ?thesis using f True registry_step.intros(3) [of "[]" "server_view s"] by simp
next
  case False
  have "server_view (snd (delete_client (fake_http base now) c i s)) = (server_view s)(i := None)"
    using al by (auto simp: delete_fake [OF b False] server_view_def fun_eq_iff split: option.split)
  then show ?thesis
    using f fresh_delete registry_step.intros(3) [of i "server_view s"]
    by (auto simp: delete_fake [OF b False] split: option.split)
qed

lemma register_refines:
  assumes f: "server_fresh s" and b: "BaseURL c = base" and al: "fs_clients s = Some al"
  shows "refines base now c s (OpRegister q)"
proof (cases "rr_redirect_uris q = []")
  case True
  have "snd (register (fake_http base now) c q s) = s"
    using register_fake_refused [OF b] True by (metis prod.collapse)
  then show ?thesis using f True by (simp add: registry_step.intros)
next
  case False
  define x where "x = registered_as now q (fs_next_id s + 1)"
  have s': "snd (register (fake_http base now) c q s)
      = s\<lparr>fs_clients := Some (AList.update (fk_client_id x) x al), fs_next_id := fs_next_id s + 1\<rparr>"
    by (simp add: register_fake [OF b al False] x_def)
  have "server_view (snd (register (fake_http base now) c q s))
      = (server_view s)(fk_client_id x \<mapsto> (utf8 (rr_client_name q), map utf8 (rr_redirect_uris q)))"
    unfolding s' using al
    by (auto simp: server_view_def fun_eq_iff update_conv' x_def registered_as_def)
  moreover have "server_view s (fk_client_id x) = None" "fk_client_id x \<noteq> []"
    using fresh_identifier [OF f] by (simp_all add: x_def registered_as_def)
  ultimately show ?thesis
    using False fresh_register [OF f al, of now q] registry_step.intros(4) [of q "fk_client_id x" "server_view s"]
    by (simp add: s' x_def)
qed

lemma update_refines:
  assumes f: "server_fresh s" and b: "BaseURL c = base" and al: "fs_clients s = Some al"
  shows "refines base now c s (OpUpdate i n us)"
proof (cases "i = []")
  case True
  obtain resp where r: "do_request (fake_http base now) c ''POST'' (''/edit/'' @ path_escape [])
    (form_encode [(''name'', trim_space n), (''redirect_uris'', join [CHR 0x0A] (normalize_uris us))]) form_content_type s
    = (Inr resp, s)" "rs_status resp = 404"
    using edit_delivered(1) [OF b al no_empty_identifier [OF f al]] by blast
  have "snd (update_client (fake_http base now) c [] n us s) = s"
    unfolding update_client_def Let_def form_content_type_def [symmetric] r(1) using r(2) by simp
  moreover have "server_view s [] = None" using al no_empty_identifier [OF f al] by (simp add: server_view_def)
  ultimately show ?thesis using f True by (simp add: registry_step.intros)
next
  case False
  obtain d s' where u: "update_client (fake_http base now) c i n us s = (d, s')" by fastforce
  note s' = update_fake [OF b al False u, THEN conjunct1]
  show ?thesis
  proof (cases "map_of al i \<noteq> None \<and> edit_accepted us")
    case True
    then obtain x where x: "map_of al i = Some x" by blast
    have "s' = s\<lparr>fs_clients := Some (AList.update i (edited (trim_space n) (edit_lines (normalize_uris us)) x) al)\<rparr>"
      using s' x True by simp
    moreover from this have "server_view s'
        = (server_view s)(i \<mapsto> (utf8 (trim_space n), map utf8 (edit_lines (normalize_uris us))))"
      using al by (auto simp: server_view_def fun_eq_iff update_conv' edited_def)
    ultimately show ?thesis
      using fresh_edit [OF f al x] True u al
        registry_step.intros(6) [of "server_view s" i us n] by (simp add: server_view_none)
  next
    case False
    then have "s' = s" using s' by (auto split: option.splits)
    then show ?thesis
      using f u al False registry_step.intros(7) [of "server_view s" i us n] by (auto simp: server_view_none)
  qed
qed

lemma client_step_state:
  assumes f: "server_fresh s" and b: "BaseURL c = base"
  shows "refines base now c s op"
proof -
  obtain al where al: "fs_clients s = Some al" using f by (rule server_freshE)
  show ?thesis
  proof (cases op)
    case OpList
    then show ?thesis using f by (simp add: list_fake [OF b])
  next
    case (OpGet i)
    have "snd (get_client (fake_http base now) c i s) = s" using get_fake_state [OF b] by (metis prod.collapse)
    then show ?thesis using f OpGet by simp
  qed (simp_all only: delete_refines [OF f b al] register_refines [OF f b al] update_refines [OF f b al])
qed

lemma fake_list_law:
  assumes f: "server_fresh s"
  shows "\<exists>l. list_clients (fake_http base now) \<lparr>BaseURL = base\<rparr> s = (Inr l, s) \<and> distinct (map fc_client_id l)
      \<and> (\<forall>i n us. server_view s i = Some (n, us) \<longleftrightarrow>
            \<lparr>fc_client_id = i, fc_client_secret = [], fc_client_name = n, fc_redirect_uris = us\<rparr> \<in> set l)
      \<and> (\<forall>fc \<in> set l. fc_client_secret fc = [])"
proof -
  obtain al where al: "fs_clients s = Some al" "distinct (map fst al)"
    and k: "\<And>k x. map_of al k = Some x \<Longrightarrow> fk_client_id x = k \<and> utf8 k = k"
    using f server_freshE entry_okD by metis
  let ?l = "map (\<lambda>(k, x). seen (blank_secret x)) al"
  have "fc_client_id (seen (blank_secret x)) = k" if "(k, x) \<in> set al" for k x
    using k [of k x] that al(2) by (simp add: seen_def blank_secret_def)
  then have "map fc_client_id ?l = map fst al" by auto
  then have ids: "distinct (map fc_client_id ?l)" using al(2) by (simp only:)
  have "server_view s i = Some (n, us) \<longleftrightarrow>
      \<lparr>fc_client_id = i, fc_client_secret = [], fc_client_name = n, fc_redirect_uris = us\<rparr> \<in> set ?l" for i n us
  proof
    assume "server_view s i = Some (n, us)"
    then obtain x where x: "map_of al i = Some x" "n = utf8 (fk_client_name x)" "us = map utf8 (fk_redirect_uris x)"
      using al(1) by (auto simp: server_view_def)
    then have "seen (blank_secret x)
        = \<lparr>fc_client_id = i, fc_client_secret = [], fc_client_name = n, fc_redirect_uris = us\<rparr>"
      using k [OF x(1)] by (simp add: seen_def blank_secret_def)
    then show "\<lparr>fc_client_id = i, fc_client_secret = [], fc_client_name = n, fc_redirect_uris = us\<rparr> \<in> set ?l"
      using map_of_SomeD [OF x(1)] by force
  next
    assume "\<lparr>fc_client_id = i, fc_client_secret = [], fc_client_name = n, fc_redirect_uris = us\<rparr> \<in> set ?l"
    then obtain j x where x: "(j, x) \<in> set al"
      "\<lparr>fc_client_id = i, fc_client_secret = [], fc_client_name = n, fc_redirect_uris = us\<rparr> = seen (blank_secret x)"
      by auto
    moreover have "map_of al j = Some x" using x(1) al(2) by simp
    ultimately show "server_view s i = Some (n, us)"
      using k [of j x] al(1) by (simp add: server_view_def seen_def blank_secret_def)
  qed
  moreover have "list_clients (fake_http base now) \<lparr>BaseURL = base\<rparr> s = (Inr ?l, s)"
    using al(1) by (simp add: list_fake gm_entries_def)
  moreover have "\<forall>fc \<in> set ?l. fc_client_secret fc = []" by (auto simp: seen_def blank_secret_def)
  ultimately show ?thesis using ids by blast
qed

interpretation fake: registry server_view server_fresh
    "list_clients (fake_http base now) \<lparr>BaseURL = base\<rparr>" "\<lambda>i. get_client (fake_http base now) \<lparr>BaseURL = base\<rparr> i"
    "\<lambda>q. register (fake_http base now) \<lparr>BaseURL = base\<rparr> q" "client_step (fake_http base now) \<lparr>BaseURL = base\<rparr>"
  for base now :: string
proof unfold_locales
  fix s :: fake_server and op
  assume f: "server_fresh s"
  show "server_fresh (client_step (fake_http base now) \<lparr>BaseURL = base\<rparr> op s)"
    and "registry_step op (server_view s) (server_view (client_step (fake_http base now) \<lparr>BaseURL = base\<rparr> op s))"
    using client_step_state [OF f] by simp_all
next
  fix s :: fake_server
  assume "server_fresh s"
  then show "\<exists>l. list_clients (fake_http base now) \<lparr>BaseURL = base\<rparr> s = (Inr l, s) \<and> distinct (map fc_client_id l)
      \<and> (\<forall>i n us. server_view s i = Some (n, us) \<longleftrightarrow>
            \<lparr>fc_client_id = i, fc_client_secret = [], fc_client_name = n, fc_redirect_uris = us\<rparr> \<in> set l)
      \<and> (\<forall>fc \<in> set l. fc_client_secret fc = [])"
    by (rule fake_list_law)
next
  fix s :: fake_server and i :: string
  assume f: "server_fresh s" and i: "i \<noteq> []"
  then obtain al where al: "fs_clients s = Some al"
    and k: "\<And>k x. map_of al k = Some x \<Longrightarrow> fk_client_id x = k \<and> utf8 k = k"
    using server_freshE entry_okD by metis
  show "get_client (fake_http base now) \<lparr>BaseURL = base\<rparr> i s = (case server_view s i of
        None \<Rightarrow> (Inl ErrNotFound, s)
      | Some (n, us) \<Rightarrow> (Inr \<lparr>fc_client_id = i, fc_client_secret = [], fc_client_name = n, fc_redirect_uris = us\<rparr>, s))"
    using al k [of i] i by (auto simp: get_fake server_view_def seen_def blank_secret_def split: option.split)
next
  fix s s' :: fake_server and q fc
  assume f: "server_fresh s" and r: "register (fake_http base now) \<lparr>BaseURL = base\<rparr> q s = (Inr fc, s')"
  obtain al where al: "fs_clients s = Some al" using f by (rule server_freshE)
  have u: "rr_redirect_uris q \<noteq> []" using register_fake_refused [of "\<lparr>BaseURL = base\<rparr>", OF _ r] by fastforce
  show "s' = client_step (fake_http base now) \<lparr>BaseURL = base\<rparr> (OpRegister q) s
      \<and> fc_client_id fc \<noteq> [] \<and> server_view s (fc_client_id fc) = None
      \<and> server_view s' (fc_client_id fc) = Some (utf8 (rr_client_name q), map utf8 (rr_redirect_uris q))"
    using r register_fake [of "\<lparr>BaseURL = base\<rparr>", OF _ al u] fresh_identifier [OF f] utf8_ascii [OF generated_ascii(1)]
    by (auto simp: seen_def server_view_def update_conv' registered_as_def)
qed

end
