(* ===== verification/Examples.thy ===== *)
theory Examples
  imports Registrations
begin

text \<open>
  Concrete values for the witnesses: a reconciler with the library helpers written out, an object, a
  Secret, and an environment that answers every call. A witness replaces the answers it is about.
\<close>

definition example_reconciler :: reconciler where
  "example_reconciler =
     \<lparr>ResyncInterval = 600 * second,
      contains_finalizer = (\<lambda>fs f. f \<in> set fs),
      add_finalizer = (\<lambda>fs f. if f \<in> set fs then fs else fs @ [f]),
      remove_finalizer = (\<lambda>fs f. filter (\<lambda>g. g \<noteq> f) fs),
      set_status_condition = (\<lambda>cs c. c # filter (\<lambda>d. c_type d \<noteq> c_type c) cs),
      get_controller_of = (\<lambda>rs. find (\<lambda>r. ref_controller r = Some True) rs),
      set_controller_reference = (\<lambda>oc s. Inr (s\<lparr>s_owner_refs :=
        [\<lparr>ref_kind = ''OIDCClient'', ref_name = oc_name oc, ref_uid = oc_uid oc, ref_controller = Some True\<rparr>]\<rparr>))\<rparr>"

definition example_spec :: oidc_client_spec where
  "example_spec =
     \<lparr>ClientName = ''App'', RedirectURIs = [''https://a/cb''],
      TokenEndpointAuthMethod = ''client_secret_basic'', GrantTypes = [], ResponseTypes = [],
      Scope = [], ClientURI = [], LogoURI = [], Contacts = [], ApplicationType = ''web'',
      SecretName = [], SecretTemplate = None,
      UpdatePolicy = UpdatePolicyRecreate, DeletionPolicy = DeletionPolicyDeregister\<rparr>"

definition example_object :: oidc_client where
  "example_object =
     \<lparr>oc_name = ''app'', oc_namespace = ''team'', oc_uid = ''0a1b2c3d-4e5f'', oc_resource_version = ''1'',
      oc_generation = 1, oc_deletion_timestamp = None, oc_finalizers = [FinalizerName],
      oc_annotations = None, Spec = example_spec,
      Status = \<lparr>st_client_id = [], st_secret_name = [], st_issuer = [], st_observed_generation = 0,
                st_conditions = []\<rparr>\<rparr>"

text \<open>The same object once it is registered as client \<open>c1\<close>.\<close>

definition example_registered :: oidc_client where
  "example_registered = set_status_secret ''app-oidc'' (set_client_id ''c1'' example_object)"

definition example_deleted :: oidc_client where
  "example_deleted = example_registered\<lparr>oc_deletion_timestamp := Some ''2024-01-01T00:00:00Z''\<rparr>"

definition example_secret :: secret where
  "example_secret =
     \<lparr>s_name = ''app-oidc'', s_namespace = ''team'', s_uid = ''u1'', s_created = True,
      s_labels = Some ManagedSecretLabels, s_annotations = None,
      s_data = Some [(''client_id'', ''c1''), (''client_secret'', ''s1'')],
      s_owner_refs = [\<lparr>ref_kind = ''OIDCClient'', ref_name = ''app'', ref_uid = ''0a1b2c3d-4e5f'',
                       ref_controller = Some True\<rparr>]\<rparr>"

definition example_metadata :: provider_metadata where
  "example_metadata =
     \<lparr>pm_issuer = ''https://idp'', pm_authorization_endpoint = ''https://idp/authorize'',
      pm_token_endpoint = ''https://idp/token'', pm_userinfo_endpoint = ''https://idp/userinfo'',
      pm_jwks_uri = ''https://idp/.well-known/jwks.json''\<rparr>"

definition example_remote :: funnel_client where
  "example_remote =
     \<lparr>fc_client_id = ''c1'', fc_client_secret = ''s1'',
      fc_client_name = ''App [k8s:team/app/0a1b2c3d]'', fc_redirect_uris = [''https://a/cb'']\<rparr>"

text \<open>The object is registered, its Secret is there and tsidp has its client.\<close>

definition example_env :: "oidc_client \<Rightarrow> unit env" where
  "example_env oc =
     \<lparr>e_get_oidc = (\<lambda>ns n w. (Inr oc, w)), e_update_oidc = (\<lambda>x w. (Inr x, w)),
      e_update_status = (\<lambda>x w. (Inr x, w)), e_read_secret = (\<lambda>ns n w. (Inr example_secret, w)),
      e_delete_secret = (\<lambda>s u w. (None, w)), e_upsert_secret = (\<lambda>ns n m w. (None, w)),
      e_emit = (\<lambda>e w. w), e_discovery = (\<lambda>w. (Inr example_metadata, w)),
      e_list_clients = (\<lambda>w. (Inr [], w)), e_register = (\<lambda>q w. (Inr example_remote, w)),
      e_get_client = (\<lambda>i w. (Inr example_remote, w)), e_delete_client = (\<lambda>i w. (None, w)),
      e_update_client = (\<lambda>i n us w. (None, w))\<rparr>"

section \<open>What they evaluate to\<close>

lemma ascii_trim:
  "list_all (\<lambda>c. byte c < 128 \<and> \<not> is_space (byte c)) s \<Longrightarrow> trim_space s = s"
  by (rule trim_space_id) (auto simp: ascii_runes list_all_iff)

lemma example_names [simp]:
  "fingerprint example_object = ''[k8s:team/app/0a1b2c3d]''"
  "registered_name example_object = ''App [k8s:team/app/0a1b2c3d]''"
  "secret_name example_object = ''app-oidc''"
proof -
  show f: "fingerprint example_object = ''[k8s:team/app/0a1b2c3d]''"
    by (simp add: fingerprint_def example_object_def take_runes_ascii byte_def)
  have "trim_space ''App'' = ''App''" by (rule ascii_trim) (simp add: byte_def is_space_def)
  then show "registered_name example_object = ''App [k8s:team/app/0a1b2c3d]''"
    unfolding registered_name_def f by (simp add: display_name_def example_object_def example_spec_def)
  show "secret_name example_object = ''app-oidc''"
    by (simp add: secret_name_def example_object_def example_spec_def)
qed

lemma example_uris [simp]: "\<not> bad_uri ''https://a/cb''"
  by (simp add: bad_uri_def ascii_runes byte_def is_space_def is_control_def)

lemma example_contains [simp]:
  "contains ''App [k8s:team/app/0a1b2c3d]'' ''[k8s:team/app/0a1b2c3d]''"
  by simp

lemma example_plain: "plain_metadata example_object" "\<not> contains (ClientName (Spec example_object)) ''[k8s:''"
  by (simp_all add: plain_metadata_def example_object_def example_spec_def plain_char_def byte_def)

lemma example_fields [simp]:
  "oc_namespace example_object = ''team''" "oc_name example_object = ''app''"
  "oc_uid example_object = ''0a1b2c3d-4e5f''" "oc_deletion_timestamp example_object = None"
  "oc_finalizers example_object = [FinalizerName]" "oc_annotations example_object = None"
  "oc_generation example_object = 1"
  "Spec example_object = example_spec" "client_id example_object = []"
  "st_secret_name (Status example_object) = []" "st_conditions (Status example_object) = []"
  "RedirectURIs example_spec = [''https://a/cb'']" "UpdatePolicy example_spec = UpdatePolicyRecreate"
  "DeletionPolicy example_spec = DeletionPolicyDeregister"
  by (simp_all add: example_object_def example_spec_def)

lemma example_reconciler_simps [simp]:
  "contains_finalizer example_reconciler fs f \<longleftrightarrow> f \<in> set fs"
  "add_finalizer example_reconciler fs f = (if f \<in> set fs then fs else fs @ [f])"
  "remove_finalizer example_reconciler fs f = filter (\<lambda>g. g \<noteq> f) fs"
  "ResyncInterval example_reconciler = 600 * second"
  by (simp_all add: example_reconciler_def)

lemma example_env_simps [simp]:
  "e_get_oidc (example_env oc) ns n w = (Inr oc, w)" "e_update_oidc (example_env oc) x w = (Inr x, w)"
  "e_update_status (example_env oc) x w = (Inr x, w)" "e_read_secret (example_env oc) ns n w = (Inr example_secret, w)"
  "e_delete_secret (example_env oc) s u w = (None, w)" "e_upsert_secret (example_env oc) ns n m w = (None, w)"
  "e_emit (example_env oc) e w = w" "e_discovery (example_env oc) w = (Inr example_metadata, w)"
  "e_list_clients (example_env oc) w = (Inr [], w)" "e_register (example_env oc) q w = (Inr example_remote, w)"
  "e_get_client (example_env oc) i w = (Inr example_remote, w)" "e_delete_client (example_env oc) i w = (None, w)"
  "e_update_client (example_env oc) i n us w = (None, w)"
  by (simp_all add: example_env_def)

lemma example_secret_simps [simp]:
  "holds_credentials example_secret i \<longleftrightarrow> i = ''c1''"
  "owned_by example_reconciler example_object example_secret"
  by (auto simp: holds_credentials_def data_of_def example_secret_def owned_by_def example_reconciler_def)

lemma example_remote_simps [simp]:
  "fc_client_id example_remote = ''c1''" "\<not> drifted example_object example_remote"
  "fc_client_name example_remote = ''App [k8s:team/app/0a1b2c3d]''"
  by (simp_all add: example_remote_def drifted_def same_string_set_def)

lemma example_registered_simps [simp]:
  "Spec example_registered = example_spec" "client_id example_registered = ''c1''"
  "st_secret_name (Status example_registered) = ''app-oidc''" "oc_namespace example_registered = ''team''"
  "oc_deletion_timestamp example_registered = None" "oc_finalizers example_registered = [FinalizerName]"
  "secret_name example_registered = ''app-oidc''" "registered_name example_registered = registered_name example_object"
  "fingerprint example_registered = ''[k8s:team/app/0a1b2c3d]''"
  "drifted example_registered = drifted example_object"
  "owned_by example_reconciler example_registered example_secret"
  "registration_of example_registered = registration_of example_object"
  by (simp_all add: example_registered_def, simp_all add: set_status_secret_def set_client_id_def)

declare reconcile_def [prog_defs] ensure_finalizer_def [prog_defs] reconcile_normal_def [prog_defs] rename_cleanup_def [prog_defs]
  ensure_registered_def [prog_defs] register_or_adopt_def [prog_defs] secret_adoptable_def [prog_defs] register_new_def [prog_defs]
  upsert_secret_def [prog_defs] reconcile_registered_def [prog_defs] check_drift_def [prog_defs] converge_secret_def [prog_defs]
  burn_lost_secret_def [prog_defs] delete_failure_def [prog_defs] reconcile_delete_def [prog_defs] deregister_def [prog_defs]
  run_bind [prog_defs] log_call_def [prog_defs]

text \<open>The first pass over the object: it registers a client.\<close>

abbreviation unregistered_env :: "unit env" where
  "unregistered_env \<equiv> (example_env example_object)\<lparr>e_read_secret := \<lambda>ns n w. (Inl KNotFound, w)\<rparr>"

lemma example_registers:
  "\<exists>a w e s m. run unregistered_env (reconcile example_reconciler ''team'' ''app'') () =
    (a, w, [CGetOIDC ''team'' ''app'' (Inr example_object), CDiscovery (Inr example_metadata),
      CReadSecret ''team'' ''app-oidc'' (Inl KNotFound), CListClients (Inr []),
      CRegister (registration_of example_object) (Inr example_remote),
      CUpsertSecret ''team'' ''app-oidc'' m None, CEmit e, CUpdateStatus s (Inr s)])"
  by (simp add: prog_defs Let_def)

text \<open>A registered object whose Secret is gone: the registration is burned.\<close>

abbreviation lost_secret_env :: "unit env" where
  "lost_secret_env \<equiv> (example_env example_registered)\<lparr>e_read_secret := \<lambda>ns n w. (Inl KNotFound, w)\<rparr>"

lemma example_burns:
  "\<exists>a w e s. run lost_secret_env (reconcile example_reconciler ''team'' ''app'') () =
    (a, w, [CGetOIDC ''team'' ''app'' (Inr example_registered), CDiscovery (Inr example_metadata),
      CGetClient ''c1'' (Inr example_remote), CReadSecret ''team'' ''app-oidc'' (Inl KNotFound), CEmit e]
      @ CDeleteClient ''c1'' None # [CUpdateStatus s (Inr s)])"
  by (simp add: prog_defs Let_def)

text \<open>A registered object under InPlace whose registration was renamed.\<close>

definition example_inplace :: oidc_client where
  "example_inplace = example_registered\<lparr>Spec := example_spec\<lparr>UpdatePolicy := UpdatePolicyInPlace\<rparr>\<rparr>"

lemma example_inplace_simps [simp]:
  "Spec example_inplace = example_spec\<lparr>UpdatePolicy := UpdatePolicyInPlace\<rparr>"
  "client_id example_inplace = ''c1''" "st_secret_name (Status example_inplace) = ''app-oidc''"
  "oc_namespace example_inplace = ''team''" "oc_deletion_timestamp example_inplace = None"
  "oc_finalizers example_inplace = [FinalizerName]"
  "fingerprint example_inplace = ''[k8s:team/app/0a1b2c3d]''" "secret_name example_inplace = ''app-oidc''"
  "registered_name example_inplace = ''App [k8s:team/app/0a1b2c3d]''"
proof -
  show f: "fingerprint example_inplace = ''[k8s:team/app/0a1b2c3d]''"
  proof -
    have "fingerprint example_inplace = fingerprint example_registered"
      by (simp add: fingerprint_def example_inplace_def)
    then show ?thesis by simp
  qed
  have "display_name example_inplace = display_name example_object"
    by (simp add: display_name_def Let_def example_inplace_def example_registered_def
        set_status_secret_def set_client_id_def)
  then show "registered_name example_inplace = ''App [k8s:team/app/0a1b2c3d]''"
    using example_names(1,2) unfolding registered_name_def f by simp
qed (simp_all add: example_inplace_def secret_name_def example_registered_def set_status_secret_def
    set_client_id_def, simp_all add: example_spec_def)

abbreviation renamed_remote_env :: "unit env" where
  "renamed_remote_env \<equiv> (example_env example_inplace)
     \<lparr>e_get_client := \<lambda>i w. (Inr (example_remote\<lparr>fc_client_name := ''other''\<rparr>), w)\<rparr>"

lemma renamed_drifted: "drifted example_inplace (example_remote\<lparr>fc_client_name := ''other''\<rparr>)"
  by (simp add: drifted_def)

lemma example_updates:
  "\<exists>a w e s m. run renamed_remote_env (reconcile example_reconciler ''team'' ''app'') () =
    (a, w, [CGetOIDC ''team'' ''app'' (Inr example_inplace), CDiscovery (Inr example_metadata),
      CGetClient ''c1'' (Inr (example_remote\<lparr>fc_client_name := ''other''\<rparr>)),
      CReadSecret ''team'' ''app-oidc'' (Inr example_secret)]
      @ CUpdateClient ''c1'' ''App [k8s:team/app/0a1b2c3d]'' [''https://a/cb''] None
      # [CEmit e, CUpsertSecret ''team'' ''app-oidc'' m None, CUpdateStatus s (Inr s)])"
  by (simp add: prog_defs Let_def renamed_drifted)

text \<open>A registered object whose Secret has a new name.\<close>

definition example_renamed :: oidc_client where
  "example_renamed = set_status_secret ''old'' (set_client_id ''c1'' example_object)"

lemma example_renamed_simps [simp]:
  "Spec example_renamed = example_spec" "client_id example_renamed = ''c1''"
  "st_secret_name (Status example_renamed) = ''old''" "oc_namespace example_renamed = ''team''"
  "oc_deletion_timestamp example_renamed = None" "oc_finalizers example_renamed = [FinalizerName]"
  "secret_name example_renamed = ''app-oidc''" "drifted example_renamed = drifted example_object"
  "owned_by example_reconciler example_renamed example_secret"
  by (simp_all add: example_renamed_def, simp_all add: set_status_secret_def set_client_id_def)

lemma example_deletes_secret:
  "\<exists>a w m s. run (example_env example_renamed) (reconcile example_reconciler ''team'' ''app'') () =
    (a, w, [CGetOIDC ''team'' ''app'' (Inr example_renamed), CDiscovery (Inr example_metadata),
      CReadSecret ''team'' ''app-oidc'' (Inr example_secret), CReadSecret ''team'' ''old'' (Inr example_secret)]
      @ CDeleteSecret example_secret (s_uid example_secret) None
      # [CGetClient ''c1'' (Inr example_remote), CReadSecret ''team'' ''app-oidc'' (Inr example_secret),
         CUpsertSecret ''team'' ''app-oidc'' m None, CUpdateStatus s (Inr s)])"
  by (simp add: prog_defs Let_def)

text \<open>A registered object in deletion.\<close>

lemma example_deleted_simps [simp]:
  "oc_deletion_timestamp example_deleted \<noteq> None" "oc_finalizers example_deleted = [FinalizerName]"
  "oc_annotations example_deleted = None" "Spec example_deleted = example_spec" "client_id example_deleted = ''c1''"
  by (simp_all add: example_deleted_def example_registered_def set_status_secret_def set_client_id_def)

lemma policies_differ [simp]:
  "UpdatePolicyRecreate \<noteq> UpdatePolicyInPlace" "UpdatePolicyRecreate \<noteq> UpdatePolicyBlock"
  "UpdatePolicyInPlace \<noteq> UpdatePolicyBlock" "DeletionPolicyDeregister \<noteq> DeletionPolicyOrphan"
  by (simp_all add: UpdatePolicyRecreate_def UpdatePolicyInPlace_def UpdatePolicyBlock_def
      DeletionPolicyDeregister_def DeletionPolicyOrphan_def)

lemma example_releases:
  "\<exists>a w e x. run (example_env example_deleted) (reconcile example_reconciler ''team'' ''app'') () =
    (a, w, [CGetOIDC ''team'' ''app'' (Inr example_deleted), CDeleteClient ''c1'' None, CEmit e]
      @ CUpdateOIDC x (Inr x) # [])"
proof -
  obtain ts where "oc_deletion_timestamp example_deleted = Some ts" using example_deleted_simps(1) by blast
  then show ?thesis by (simp add: prog_defs Let_def)
qed

end
