(* ===== verification/PassProperties.thy ===== *)
theory PassProperties
  imports Registrations Examples
begin

text \<open>
  What a reconcile does to the outside world and what it returns, for every environment: the
  properties of the calls of \<open>Reconcile\<close> and of its result, read off \<open>reconcile_spec\<close>.
\<close>

section \<open>Reading the contract off a run\<close>

lemma reconcile_guard_run:
  "run E (reconcile R ns n) w = (a, w', t1 @ c # t2) \<Longrightarrow> reconcile_guard R ns n t1 c"
  by (rule spec_run(2) [OF reconcile_spec]) auto

lemma reconcile_ends_run:
  "run E (reconcile R ns n) w = (a, w', t) \<Longrightarrow> reconcile_ends R ns n t a"
  by (rule spec_run(1) [OF reconcile_spec])

inductive_cases guard_register: "reconcile_guard R ns n t (CRegister q r)"
inductive_cases guard_delete: "reconcile_guard R ns n t (CDeleteClient i d)"
inductive_cases guard_update: "reconcile_guard R ns n t (CUpdateClient i m us u)"
inductive_cases guard_delete_secret: "reconcile_guard R ns n t (CDeleteSecret s u d)"
inductive_cases guard_upsert: "reconcile_guard R ns n t (CUpsertSecret ns' n' m u)"
inductive_cases guard_status: "reconcile_guard R ns n t (CUpdateStatus x r)"
inductive_cases guard_object: "reconcile_guard R ns n t (CUpdateOIDC x r)"

section \<open>Calls to tsidp\<close>

text \<open>
  C6: \<open>POST /register\<close> happens only directly after a listing of all clients in which none carries the
  object's fingerprint, for an object that records no client, with the registration of its spec, and
  after the API server said that the target Secret is absent or owned by the object.
\<close>

theorem register_only_when_absent:
  assumes "run E (reconcile R ns n) w = (a, w', t1 @ CRegister q r # t2)"
  shows "\<exists>pre oc t l. started R ns n pre oc \<and> t1 = pre @ t @ [CListClients (Inr l)]
    \<and> (\<forall>fc \<in> set l. \<not> contains (fc_client_name fc) (fingerprint oc))
    \<and> q = registration_of oc \<and> client_id oc = [] \<and> vetted R oc t"
proof -
  have "reconcile_guard R ns n t1 (CRegister q r)" by (rule reconcile_guard_run [OF assms])
  then obtain pre oc t where g: "started R ns n pre oc" "t1 = pre @ t" "live_guard R oc t (CRegister q r)"
    by (cases rule: guard_register) auto
  then obtain t0 l where t: "t = t0 @ [CListClients (Inr l)]"
    "\<forall>fc \<in> set l. \<not> contains (fc_client_name fc) (fingerprint oc)"
    by (auto simp: no_fingerprinted_def)
  then have "vetted R oc t0" using g(3) by (auto simp: vetted_def saw_absent_def saw_secret_def)
  then show ?thesis using g t by auto
qed

theorem register_only_when_absent_witness:
  "\<exists>a w t1 q r t2. run unregistered_env (reconcile example_reconciler ''team'' ''app'') () =
      (a, w, t1 @ CRegister q r # t2)
    \<and> (\<exists>pre oc t l. started example_reconciler ''team'' ''app'' pre oc \<and> t1 = pre @ t @ [CListClients (Inr l)]
       \<and> client_id oc = [] \<and> vetted example_reconciler oc t)"
proof -
  obtain a w e s m where "run unregistered_env (reconcile example_reconciler ''team'' ''app'') () =
    (a, w, [CGetOIDC ''team'' ''app'' (Inr example_object), CDiscovery (Inr example_metadata),
      CReadSecret ''team'' ''app-oidc'' (Inl KNotFound), CListClients (Inr [])]
      @ CRegister (registration_of example_object) (Inr example_remote)
      # [CUpsertSecret ''team'' ''app-oidc'' m None, CEmit e, CUpdateStatus s (Inr s)])"
    using example_registers by auto
  from this register_only_when_absent [OF this] show ?thesis by blast
qed

text \<open>
  C8: A client is deleted from tsidp only by the pass of an object whose it is (the recorded one or one
  with its fingerprint): by a live pass when the API server showed that the credentials are lost, or
  when the registration was read and had drifted while the credentials are there and the policy is
  neither InPlace nor Block; or by a deletion pass that must deregister.
\<close>

theorem delete_client_justified:
  assumes "run E (reconcile R ns n) w = (a, w', t1 @ CDeleteClient i d # t2)"
  shows "(\<exists>pre oc t. started R ns n pre oc \<and> t1 = pre @ t \<and> delete_justified oc t i)
    \<or> (\<exists>oc t. t1 = CGetOIDC ns n (Inr oc) # t \<and> oc_deletion_timestamp oc \<noteq> None
         \<and> must_deregister oc \<and> ours oc t i)"
proof -
  have "reconcile_guard R ns n t1 (CDeleteClient i d)" by (rule reconcile_guard_run [OF assms])
  then show ?thesis by (cases rule: guard_delete) (simp; blast)+
qed

theorem delete_client_justified_witness:
  "\<exists>a w t1 d t2. run lost_secret_env (reconcile example_reconciler ''team'' ''app'') () =
      (a, w, t1 @ CDeleteClient ''c1'' d # t2)
    \<and> ((\<exists>pre oc t. started example_reconciler ''team'' ''app'' pre oc \<and> t1 = pre @ t \<and> delete_justified oc t ''c1'')
      \<or> (\<exists>oc t. t1 = CGetOIDC ''team'' ''app'' (Inr oc) # t \<and> oc_deletion_timestamp oc \<noteq> None
           \<and> must_deregister oc \<and> ours oc t ''c1''))"
proof -
  obtain a w t1 t2 where r: "run lost_secret_env (reconcile example_reconciler ''team'' ''app'') () =
      (a, w, t1 @ CDeleteClient ''c1'' None # t2)"
    using example_burns by blast
  show ?thesis using r delete_client_justified [OF r] by blast
qed

text \<open>
  C19: \<open>UpdateClient\<close> is called only under updatePolicy InPlace, on the object's own registration, with
  the registered name and the URIs of the spec, after the registration was read and had drifted and
  the Secret was read and holds its credentials.
\<close>

theorem update_client_guarded:
  assumes "run E (reconcile R ns n) w = (a, w', t1 @ CUpdateClient i m us u # t2)"
  shows "\<exists>pre oc t. started R ns n pre oc \<and> t1 = pre @ t \<and> UpdatePolicy (Spec oc) = UpdatePolicyInPlace
    \<and> m = registered_name oc \<and> us = RedirectURIs (Spec oc)
    \<and> ours oc t i \<and> saw_drift oc t i \<and> saw_credentials oc t i"
proof -
  have "reconcile_guard R ns n t1 (CUpdateClient i m us u)" by (rule reconcile_guard_run [OF assms])
  then show ?thesis by (cases rule: guard_update) (simp; blast)+
qed

theorem update_client_guarded_witness:
  "\<exists>a w t1 i m us u t2. run renamed_remote_env (reconcile example_reconciler ''team'' ''app'') () =
      (a, w, t1 @ CUpdateClient i m us u # t2)
    \<and> (\<exists>pre oc t. started example_reconciler ''team'' ''app'' pre oc \<and> t1 = pre @ t
         \<and> UpdatePolicy (Spec oc) = UpdatePolicyInPlace \<and> saw_drift oc t i \<and> saw_credentials oc t i)"
proof -
  obtain a w t1 t2 where r: "run renamed_remote_env (reconcile example_reconciler ''team'' ''app'') () =
      (a, w, t1 @ CUpdateClient ''c1'' ''App [k8s:team/app/0a1b2c3d]'' [''https://a/cb''] None # t2)"
    using example_updates by blast
  show ?thesis using r update_client_guarded [OF r] by blast
qed

section \<open>Calls on Secrets\<close>

text \<open>
  C18: A Secret is deleted only when the status names it, the spec now names another one that is free or
  ours, and the Secret just read from the API server is owned by the object; the deletion is pinned to
  the UID that was read.
\<close>

theorem delete_secret_guarded:
  assumes "run E (reconcile R ns n) w = (a, w', t1 @ CDeleteSecret s u d # t2)"
  shows "\<exists>pre oc t. started R ns n pre oc \<and> t1 = pre @ t \<and> u = s_uid s \<and> owned_by R oc s
    \<and> st_secret_name (Status oc) \<noteq> secret_name oc \<and> vetted R oc t
    \<and> CReadSecret (oc_namespace oc) (st_secret_name (Status oc)) (Inr s) \<in> set t"
proof -
  have "reconcile_guard R ns n t1 (CDeleteSecret s u d)" by (rule reconcile_guard_run [OF assms])
  then show ?thesis by (cases rule: guard_delete_secret) (simp; blast)+
qed

theorem delete_secret_guarded_witness:
  "\<exists>a w t1 d t2. run (example_env example_renamed) (reconcile example_reconciler ''team'' ''app'') () =
      (a, w, t1 @ CDeleteSecret example_secret (s_uid example_secret) d # t2)
    \<and> (\<exists>pre oc t. started example_reconciler ''team'' ''app'' pre oc \<and> t1 = pre @ t
         \<and> owned_by example_reconciler oc example_secret \<and> vetted example_reconciler oc t)"
proof -
  obtain a w t1 t2 where r: "run (example_env example_renamed) (reconcile example_reconciler ''team'' ''app'') () =
      (a, w, t1 @ CDeleteSecret example_secret (s_uid example_secret) None # t2)"
    using example_deletes_secret by blast
  show ?thesis using r delete_secret_guarded [OF r] by blast
qed

text \<open>
  C14: The credentials Secret is written under the name of the spec only, with the answer of discovery:
  either with the credentials a registration of this pass returned, after the name was vetted, or
  with metadata only, after its credentials were read and found to be those of the object's client.
\<close>

theorem write_secret_guarded:
  assumes "run E (reconcile R ns n) w = (a, w', t1 @ CUpsertSecret ns' n' m u # t2)"
  shows "\<exists>pre oc t disc. started R ns n pre oc \<and> t1 = pre @ t \<and> ns' = oc_namespace oc \<and> n' = secret_name oc
    \<and> CDiscovery (Inr disc) \<in> set t
    \<and> ((\<exists>resp. CRegister (registration_of oc) (Inr resp) \<in> set t \<and> vetted R oc t
          \<and> credentials_mutate R oc resp disc m)
       \<or> (\<exists>i. ours oc t i \<and> saw_credentials oc t i \<and> metadata_mutate R oc disc m))"
proof -
  have "reconcile_guard R ns n t1 (CUpsertSecret ns' n' m u)" by (rule reconcile_guard_run [OF assms])
  then show ?thesis by (cases rule: guard_upsert) (simp; blast)+
qed

theorem write_secret_guarded_witness:
  "\<exists>a w t1 m u t2. run renamed_remote_env (reconcile example_reconciler ''team'' ''app'') () =
      (a, w, t1 @ CUpsertSecret ''team'' ''app-oidc'' m u # t2)
    \<and> (\<exists>pre oc t disc. started example_reconciler ''team'' ''app'' pre oc \<and> t1 = pre @ t
         \<and> ''app-oidc'' = secret_name oc \<and> CDiscovery (Inr disc) \<in> set t)"
proof -
  obtain a w t1 t2 e s m where "run renamed_remote_env (reconcile example_reconciler ''team'' ''app'') () =
      (a, w, t1 @ CUpdateClient ''c1'' ''App [k8s:team/app/0a1b2c3d]'' [''https://a/cb''] None
        # [CEmit e, CUpsertSecret ''team'' ''app-oidc'' m None, CUpdateStatus s (Inr s)])"
    using example_updates by blast
  then have r: "run renamed_remote_env (reconcile example_reconciler ''team'' ''app'') () =
      (a, w, (t1 @ [CUpdateClient ''c1'' ''App [k8s:team/app/0a1b2c3d]'' [''https://a/cb''] None, CEmit e])
        @ CUpsertSecret ''team'' ''app-oidc'' m None # [CUpdateStatus s (Inr s)])" by simp
  show ?thesis using r write_secret_guarded [OF r] by blast
qed

section \<open>The status and the finalizer\<close>

text \<open>
  C7: The credentials are in the Secret before the status records their client: a status write changes
  the status only, and the client it records is none, the recorded one, one whose credentials a
  successful Secret write of this pass stored, or a fingerprinted one whose credentials were read from
  the owned Secret.
\<close>

theorem status_records_credentials:
  assumes "run E (reconcile R ns n) w = (a, w', t1 @ CUpdateStatus x r # t2)"
  shows "\<exists>pre oc t. started R ns n pre oc \<and> t1 = pre @ t \<and> same_object oc x
    \<and> st_observed_generation (Status x) = oc_generation oc \<and> recordable R oc t (client_id x)"
proof -
  have "reconcile_guard R ns n t1 (CUpdateStatus x r)" by (rule reconcile_guard_run [OF assms])
  then obtain pre oc t y res err where g: "started R ns n pre oc" "t1 = pre @ t" "x = observe_generation y"
    and l: "live_result R oc t (y, res, err)"
    by (cases rule: guard_status) auto
  have y: "same_object oc y" "recordable R oc t (client_id y)"
    using live_result_status [OF l] by blast+
  have "oc_generation y = oc_generation oc" using same_objectD(5) [OF y(1)] .
  then have "same_object oc x \<and> client_id x = client_id y
      \<and> st_observed_generation (Status x) = oc_generation oc"
    using y(1) g(3) by (simp add: same_object_def observe_generation_def)
  then show ?thesis using g y(2) by metis
qed

theorem status_records_credentials_witness:
  "\<exists>a w t1 x r t2. run lost_secret_env (reconcile example_reconciler ''team'' ''app'') () =
      (a, w, t1 @ CUpdateStatus x r # t2)
    \<and> (\<exists>pre oc t. started example_reconciler ''team'' ''app'' pre oc \<and> t1 = pre @ t \<and> same_object oc x
         \<and> recordable example_reconciler oc t (client_id x))"
proof -
  obtain a w t1 s where "run lost_secret_env (reconcile example_reconciler ''team'' ''app'') () =
      (a, w, t1 @ CDeleteClient ''c1'' None # [CUpdateStatus s (Inr s)])"
    using example_burns by blast
  then have r: "run lost_secret_env (reconcile example_reconciler ''team'' ''app'') () =
      (a, w, (t1 @ [CDeleteClient ''c1'' None]) @ CUpdateStatus s (Inr s) # [])" by simp
  show ?thesis using r status_records_credentials [OF r] by blast
qed



section \<open>Results\<close>

lemma live_result_requeue:
  assumes "live_result R oc t (x, res, err)"
  shows "err = None \<and> RequeueAfter res \<in> {second, errBackoff, ResyncInterval R}"
  using assms by cases (auto simp: not_ready_def requeue_def)

lemma zero_requeue [simp]: "RequeueAfter (requeue d) = d"
  by (simp add: requeue_def)

lemma errors_at_run:
  assumes "run E (reconcile R ns n) w = ((res, err), w', t)"
  shows "err = None \<or> (\<exists>c \<in> set t. (\<exists>e. c = CGetOIDC ns n (Inl e)) \<or> (\<exists>x e. c = CUpdateOIDC x (Inl e))
    \<or> (\<exists>x e. c = CUpdateStatus x (Inl e)))"
proof -
  have "reconcile_ends R ns n t (res, err)" by (rule reconcile_ends_run [OF assms])
  then show ?thesis
  proof cases
    case (deleting oc u)
    from deleting(3) show ?thesis by cases (use deleting(1) in auto)
  qed (auto dest: live_result_requeue)
qed

lemma started_read: "started R ns n pre oc \<Longrightarrow> \<exists>oc0 u. pre = CGetOIDC ns n (Inr oc0) # u"
  by (auto elim: started.cases)



text \<open>
  C27: Only the API server's errors become reconcile errors: an error of \<open>Reconcile\<close> is the answer to
  reading the object, to updating it or to updating its status; whatever tsidp, the Secrets or the spec do
  is reported in the status and retried.
\<close>

theorem errors_are_api_errors:
  assumes "run E (reconcile R ns n) w = ((res, Some err), w', t)"
  shows "res = requeue 0 \<and> (\<exists>e. err = KubeError e \<and> e \<noteq> KNotFound \<and> t = [CGetOIDC ns n (Inl e)]
    \<or> err = KubeError e \<and> (\<exists>x. CUpdateOIDC x (Inl e) \<in> set t)
    \<or> err = KubeError e \<and> e \<noteq> KConflict \<and> (\<exists>x. CUpdateStatus x (Inl e) \<in> set t))"
proof -
  have "reconcile_ends R ns n t (res, Some err)" by (rule reconcile_ends_run [OF assms])
  then show ?thesis
  proof cases
    case (deleting oc u)
    from deleting(3) show ?thesis
      by cases (use deleting(1) in auto)
  qed (auto dest: live_result_requeue)
qed

theorem errors_are_api_errors_witness:
  "run ((example_env example_object)\<lparr>e_get_oidc := \<lambda>ns n w. (Inl (KOther ''timeout''), w)\<rparr>)
      (reconcile example_reconciler ''team'' ''app'') () =
    ((requeue 0, Some (KubeError (KOther ''timeout''))), (), [CGetOIDC ''team'' ''app'' (Inl (KOther ''timeout''))])
   \<and> (\<exists>e. KubeError (KOther ''timeout'') = KubeError e)"
proof -
  have r: "run ((example_env example_object)\<lparr>e_get_oidc := \<lambda>ns n w. (Inl (KOther ''timeout''), w)\<rparr>)
      (reconcile example_reconciler ''team'' ''app'') () =
    ((requeue 0, Some (KubeError (KOther ''timeout''))), (), [CGetOIDC ''team'' ''app'' (Inl (KOther ''timeout''))])"
    by (simp add: prog_defs)
  show ?thesis using r errors_are_api_errors [OF r] by blast
qed

text \<open>The status of the Ready condition.\<close>

definition ready_status :: "condition list \<Rightarrow> string option" where
  "ready_status cs = map_option c_status (find (\<lambda>c. c_type c = ConditionReady) cs)"

text \<open>
  C20: Ready turns true on evidence only: when a pass over an object that was not ready leaves the
  condition true, either it has just registered the recorded client and written its credentials to
  the Secret, or it has read the registration and found it in sync with the spec (or updated it in
  place), has read its credentials in the Secret, and has written the Secret's metadata. The hypothesis on
  \<open>meta.SetStatusCondition\<close> is that it sets the status of the condition it is given.
\<close>

theorem ready_on_evidence:
  assumes cond: "\<And>cs c. c_type c = ConditionReady \<Longrightarrow>
      ready_status (set_status_condition R cs c) = Some (c_status c)"
    and run: "run E (reconcile_normal R oc) w = ((x, res, err), w', t)"
    and before: "ready_status (st_conditions (Status oc)) \<noteq> Some ''True''"
    and after: "ready_status (st_conditions (Status x)) = Some ''True''"
  shows "res = requeue (ResyncInterval R) \<and> st_secret_name (Status x) = secret_name oc
    \<and> (wrote_credentials R oc t (client_id x) \<or> verified R oc t (client_id x))"
proof -
  have "live_result R oc t (x, res, err)"
    by (rule spec_run(1) [OF reconcile_normal_spec run])
  then show ?thesis
  proof cases
    case (failed y reason msg)
    then have "ready_status (st_conditions (Status x)) = Some ''False''"
      using cond by (simp add: not_ready_def set_cond_def)
    then show ?thesis using after by simp
  next
    case (ready y)
    then show ?thesis using same_objectD(8) [OF ready(4)] by auto
  qed (use before after in auto)
qed

theorem ready_on_evidence_witness:
  "\<exists>x res err w t. run unregistered_env (reconcile_normal example_reconciler example_object) () = ((x, res, err), w, t)
    \<and> res = requeue (600 * second)
    \<and> (wrote_credentials example_reconciler example_object t (client_id x)
       \<or> verified example_reconciler example_object t (client_id x))"
proof -
  have law: "ready_status (set_status_condition example_reconciler cs c) = Some (c_status c)"
    if "c_type c = ConditionReady" for cs c
    using that by (simp add: ready_status_def example_reconciler_def)
  obtain x res err w t where r: "run unregistered_env (reconcile_normal example_reconciler example_object) () = ((x, res, err), w, t)"
    and x: "ready_status (st_conditions (Status x)) = Some ''True''"
    by (simp add: prog_defs Let_def mark_ready_def set_cond_def law)
  have "ready_status (st_conditions (Status example_object)) \<noteq> Some ''True''"
    by (simp add: ready_status_def)
  from ready_on_evidence [OF law r this x] show ?thesis using r by auto
qed

section \<open>Particular passes\<close>

text \<open>
  C29: The escape hatch: with the force-remove annotation or the Orphan policy a deletion pass makes one
  call, the update that removes the finalizer, and fails only if that fails; in particular it neither
  calls tsidp nor touches a Secret.
\<close>

theorem release_without_deregistering:
  assumes "contains_finalizer R (oc_finalizers oc) FinalizerName" and "\<not> must_deregister oc"
    and "e_update_oidc E (without_finalizer R oc) w = (u, w1)"
  shows "run E (reconcile_delete R oc) w =
    ((requeue 0, case u of Inl e \<Rightarrow> Some (KubeError e) | Inr _ \<Rightarrow> None),
     w1, [CUpdateOIDC (without_finalizer R oc) u])"
  using assms
  by (auto simp: reconcile_delete_def deregister_def must_deregister_def forced_def
      without_finalizer_def log_call_def split: sum.split)

theorem release_without_deregistering_witness:
  "snd (snd (run (example_env example_deleted) (reconcile_delete example_reconciler
       (example_deleted\<lparr>oc_annotations := Some [(ForceRemoveFinalizerAnnotation, [])]\<rparr>)) ())) =
    [CUpdateOIDC (without_finalizer example_reconciler
        (example_deleted\<lparr>oc_annotations := Some [(ForceRemoveFinalizerAnnotation, [])]\<rparr>))
      (Inr (without_finalizer example_reconciler
        (example_deleted\<lparr>oc_annotations := Some [(ForceRemoveFinalizerAnnotation, [])]\<rparr>)))]"
  by (subst release_without_deregistering [where u = "Inr (without_finalizer example_reconciler
        (example_deleted\<lparr>oc_annotations := Some [(ForceRemoveFinalizerAnnotation, [])]\<rparr>))" and ?w1.0 = "()"])
    (simp_all add: must_deregister_def forced_def)

text \<open>
  C30: An object with a redirect URI that holds a space or control rune gets no further than its status:
  the pass reads the object and writes the status with SpecInvalid, and makes no call to tsidp or on Secrets.
\<close>

theorem invalid_spec_stays_local:
  assumes obj: "e_get_oidc E ns n w = (Inr oc, w1)" "oc_deletion_timestamp oc = None"
    "contains_finalizer R (oc_finalizers oc) FinalizerName"
    and bad: "u \<in> set (RedirectURIs (Spec oc))" "r \<in> set (runes u)" "is_space r \<or> is_control r"
  shows "\<exists>v x ans. run E (reconcile R ns n) w =
      ((case ans of Inl e \<Rightarrow> if e = KConflict then (requeue second, None) else (requeue 0, Some (KubeError e))
        | Inr _ \<Rightarrow> (requeue errBackoff, None)),
       snd (e_update_status E x w1), [CGetOIDC ns n (Inr oc), CUpdateStatus x ans])
    \<and> v \<in> set (RedirectURIs (Spec oc)) \<and> bad_uri v \<and> ans = fst (e_update_status E x w1)
    \<and> x = observe_generation (set_cond R oc ''False'' ''SpecInvalid''
        (Sprintf ''redirect URI %q contains whitespace or control characters'' [MStr v]))"
proof -
  have "bad_uri u" using bad(2,3) by (auto simp: bad_uri_def list_ex_iff)
  then obtain v where v: "find bad_uri (RedirectURIs (Spec oc)) = Some v"
    using bad(1) by (meson find_None_iff not_None_eq)
  then have "v \<in> set (RedirectURIs (Spec oc))" "bad_uri v"
    by (auto simp: find_Some_iff)
  then show ?thesis
    using obj v
    by (intro exI [of _ v])
      (auto simp: reconcile_def ensure_finalizer_def reconcile_normal_def run_bind not_ready_def
        log_call_def case_prod_beta Let_def split: sum.split)
qed

theorem invalid_spec_stays_local_witness:
  "\<exists>v x ans. length (snd (snd (run
      (example_env (example_object\<lparr>Spec := example_spec\<lparr>RedirectURIs := [''https://a/cb'', ''a b'']\<rparr>\<rparr>))
      (reconcile example_reconciler ''team'' ''app'') ()))) = length [x, ans] \<and> bad_uri v"
proof -
  let ?oc = "example_object\<lparr>Spec := example_spec\<lparr>RedirectURIs := [''https://a/cb'', ''a b'']\<rparr>\<rparr>"
  have "(32::nat) \<in> set (runes ''a b'')" by (simp add: ascii_runes byte_def)
  moreover have "is_space 32 \<or> is_control 32" by (simp add: is_space_def)
  ultimately show ?thesis
    using invalid_spec_stays_local [of "example_env ?oc" "''team''" "''app''" "()" ?oc "()" example_reconciler "''a b''" 32]
    by auto
qed

text \<open>The first steps of a pass over an object that records a client, without a rename pending.\<close>

lemma registered_pass:
  assumes "find bad_uri (RedirectURIs (Spec oc)) = None" and "client_id oc \<noteq> []"
    and "st_secret_name (Status oc) \<in> {[], secret_name oc}"
    and "e_discovery E w = (Inr disc, w1)"
  shows "run E (reconcile_normal R oc) w =
    log_call (CDiscovery (Inr disc)) (run E (reconcile_registered R (set_issuer (pm_issuer disc) oc) disc) w1)"
  using assms by (auto simp: reconcile_normal_def rename_cleanup_def ensure_registered_def Let_def)

text \<open>
  C31: When tsidp no longer knows the recorded client, the pass forgets the client, emits
  RegistrationLost and asks to be run again after a second; it leaves the conditions as they were, so an object
  that was Ready stays Ready while no client is recorded.
\<close>

theorem lost_registration_keeps_conditions:
  assumes "find bad_uri (RedirectURIs (Spec oc)) = None" and "client_id oc \<noteq> []"
    and "st_secret_name (Status oc) \<in> {[], secret_name oc}"
    and "e_discovery E w = (Inr disc, w1)"
    and "e_get_client E (client_id oc) w1 = (Inl e, w2)" and "errors_is e ErrNotFound"
  shows "\<exists>x w' t. run E (reconcile_normal R oc) w = ((x, requeue second, None), w', t)
    \<and> client_id x = [] \<and> st_conditions (Status x) = st_conditions (Status oc)
    \<and> (\<exists>msg. t = [CDiscovery (Inr disc), CGetClient (client_id oc) (Inl e),
                   CEmit (warning ''RegistrationLost'' msg)])"
  using assms(5,6)
  by (simp add: registered_pass [OF assms(1-4)] reconcile_registered_def log_call_def) blast

theorem lost_registration_keeps_conditions_witness:
  "\<exists>x w t. run ((example_env example_registered)\<lparr>e_get_client := \<lambda>i w. (Inl ErrNotFound, w)\<rparr>)
      (reconcile_normal example_reconciler (set_cond example_reconciler example_registered ''True'' ''Ready'' (Plain ''ok''))) ()
      = ((x, requeue second, None), w, t)
    \<and> client_id x = [] \<and> ready_status (st_conditions (Status x)) = Some ''True''"
proof -
  let ?oc = "set_cond example_reconciler example_registered ''True'' ''Ready'' (Plain ''ok'')"
  have "ready_status (st_conditions (Status ?oc)) = Some ''True''"
    by (simp add: set_cond_def ready_status_def example_reconciler_def)
  moreover have "secret_name ?oc = ''app-oidc''"
  proof -
    have "secret_name ?oc = secret_name example_registered"
      by (simp add: secret_name_def set_cond_def)
    then show ?thesis by simp
  qed
  ultimately show ?thesis
    using lost_registration_keeps_conditions [of ?oc "(example_env example_registered)\<lparr>e_get_client := \<lambda>i w. (Inl ErrNotFound, w)\<rparr>"
        "()" example_metadata "()" ErrNotFound "()" example_reconciler] by auto
qed

lemma steady_pass:
  assumes "find bad_uri (RedirectURIs (Spec oc)) = None" and "client_id oc \<noteq> []"
    and "st_secret_name (Status oc) \<in> {[], secret_name oc}"
    and "e_discovery E w = (Inr disc, w1)"
    and "e_get_client E (client_id oc) w1 = (Inr remote, w2)" and "\<not> drifted oc remote"
    and "e_read_secret E (oc_namespace oc) (secret_name oc) w2 = (Inr sec, w3)"
    and "holds_credentials sec (client_id oc)"
    and m: "m = upsert_mutate R (set_issuer (pm_issuer disc) oc)
      (\<lambda>s. set_secret_metadata s disc (RedirectURIs (Spec oc)))"
    and "e_upsert_secret E (oc_namespace oc) (secret_name oc) m w3 = (None, w4)"
  shows "run E (reconcile_normal R oc) w =
    ((mark_ready R (set_issuer (pm_issuer disc) oc), requeue (ResyncInterval R), None), w4,
     [CDiscovery (Inr disc), CGetClient (client_id oc) (Inr remote),
      CReadSecret (oc_namespace oc) (secret_name oc) (Inr sec),
      CUpsertSecret (oc_namespace oc) (secret_name oc) m None])"
  using assms(5-8,10)
  by (simp add: registered_pass [OF assms(1-4)] reconcile_registered_def check_drift_def converge_secret_def
      upsert_secret_def log_call_def m)



end
