(* ===== verification/SecretProperties.thy ===== *)
theory SecretProperties
  imports Examples FakeContract
begin

text \<open>
  What the operator keeps of a credentials Secret: the metadata of the user's template converges under
  every sequence of template edits, a write of metadata leaves the credentials alone, a write of
  credentials stores usable ones, a Secret of another owner is refused, and no write panics.
\<close>

section \<open>Sequences of template edits\<close>

text \<open>The value a key ends with when the keys in \<open>P\<close> were applied before and \<open>cur\<close> is applied now.\<close>

definition settled :: "string set \<Rightarrow> string gomap \<Rightarrow> string option \<Rightarrow> string \<Rightarrow> string option" where
  "settled P cur old k =
     (case gm_get cur k of Some v \<Rightarrow> Some v | None \<Rightarrow> if k \<in> P then None else old)"

lemma converged_settled: "converged prev cur old k = settled (set prev) cur (gm_get old k) k"
  by (simp add: converged_def settled_def)

lemma settled_twice:
  "settled (set (gm_keys cur)) cur' (settled P cur old k) k = settled (P \<union> set (gm_keys cur)) cur' old k"
  by (auto simp: settled_def gm_keys_get split: option.split)

text \<open>A template of the API server: its maps list every key once, and the keys are text.\<close>

definition template_ok :: "secret_template option \<Rightarrow> bool" where
  "template_ok tpl \<longleftrightarrow> template_wf tpl
     \<and> list_all valid_utf8 (gm_keys (template_labels tpl)) \<and> list_all valid_utf8 (gm_keys (template_annotations tpl))"

lemma previous_keys_applied:
  assumes "template_ok tpl" and "apply_secret_template sec tpl = Some sec'"
  shows "previous_keys sec' = keys_of_template tpl"
proof -
  have rec: "gm_get (s_annotations sec') templateKeysAnnotation
      = (if keys_of_template tpl = no_template_keys then None
         else Some (json_text (template_keys_json (keys_of_template tpl))))"
    using apply_secret_template_effect [of tpl sec] assms by (auto simp: template_ok_def)
  have "unmarshal_template_keys (json_text (template_keys_json (keys_of_template tpl))) = keys_of_template tpl"
    using assms(1) by (intro unmarshal_marshal_template_keys)
      (simp_all add: keys_of_template_def template_ok_def list_all_iff)
  then show ?thesis
    using rec by (auto simp: previous_keys_def no_template_keys_def)
qed

text \<open>What a write leaves alone besides labels, annotations, data and owner references.\<close>

definition same_meta :: "secret \<Rightarrow> secret \<Rightarrow> bool" where
  "same_meta s s' \<longleftrightarrow> s_owner_refs s' = s_owner_refs s \<and> s_created s' = s_created s
     \<and> s_name s' = s_name s \<and> s_namespace s' = s_namespace s"

lemma apply_secret_template_settles:
  assumes "template_wf tpl"
  obtains sec' where "apply_secret_template sec tpl = Some sec'"
    and "\<And>k. gm_get (s_labels sec') k
      = settled (set (atk_labels (previous_keys sec))) (template_labels tpl) (gm_get (s_labels sec) k) k"
    and "\<And>k. k \<noteq> templateKeysAnnotation \<Longrightarrow> gm_get (s_annotations sec') k
      = settled (set (atk_annotations (previous_keys sec))) (template_annotations tpl) (gm_get (s_annotations sec) k) k"
    and "s_data sec' = s_data sec" and "same_meta sec sec'"
proof -
  obtain sec' where s: "apply_secret_template sec tpl = Some sec'"
    "sec'\<lparr>s_labels := s_labels sec, s_annotations := s_annotations sec\<rparr> = sec"
    "\<And>k. gm_get (s_labels sec') k = converged (atk_labels (previous_keys sec)) (template_labels tpl) (s_labels sec) k"
    "\<And>k. k \<noteq> templateKeysAnnotation \<Longrightarrow> gm_get (s_annotations sec') k
      = converged (atk_annotations (previous_keys sec)) (template_annotations tpl) (s_annotations sec) k"
    using apply_secret_template_effect [OF assms, of sec] by blast
  have "s_data sec' = s_data sec" using arg_cong [OF s(2), of s_data] by simp
  moreover have "same_meta sec sec'"
    using arg_cong [OF s(2), of s_owner_refs] arg_cong [OF s(2), of s_created]
      arg_cong [OF s(2), of s_name] arg_cong [OF s(2), of s_namespace]
    by (simp add: same_meta_def)
  ultimately show ?thesis using that [OF s(1)] s(3,4) by (simp add: converged_settled)
qed

fun apply_templates :: "secret \<Rightarrow> secret_template option list \<Rightarrow> secret option" where
  "apply_templates sec [] = Some sec"
| "apply_templates sec (t # ts) =
     (case apply_secret_template sec t of None \<Rightarrow> None | Some sec' \<Rightarrow> apply_templates sec' ts)"

lemma apply_templates_snoc:
  "apply_templates sec (ts @ [t]) = (case apply_templates sec ts of
     None \<Rightarrow> None | Some sec' \<Rightarrow> apply_secret_template sec' t)"
  by (induction ts arbitrary: sec) (auto split: option.split)

definition applied_keys :: "(secret_template option \<Rightarrow> string gomap) \<Rightarrow> secret_template option list \<Rightarrow> string set" where
  "applied_keys part ts = (\<Union>t \<in> set ts. set (gm_keys (part t)))"

text \<open>What holds after applying \<open>ts\<close> and then \<open>tpl\<close>.\<close>

definition settled_after :: "secret \<Rightarrow> secret_template option list \<Rightarrow> secret_template option \<Rightarrow> secret \<Rightarrow> bool" where
  "settled_after sec ts tpl sec' \<longleftrightarrow>
     (\<forall>k. gm_get (s_labels sec') k = settled (set (atk_labels (previous_keys sec)) \<union> applied_keys template_labels ts)
        (template_labels tpl) (gm_get (s_labels sec) k) k)
     \<and> (\<forall>k. k \<noteq> templateKeysAnnotation \<longrightarrow> gm_get (s_annotations sec') k
        = settled (set (atk_annotations (previous_keys sec)) \<union> applied_keys template_annotations ts)
            (template_annotations tpl) (gm_get (s_annotations sec) k) k)
     \<and> s_data sec' = s_data sec \<and> previous_keys sec' = keys_of_template tpl"

lemma settled_after_first:
  assumes "template_ok tpl"
  shows "\<exists>sec'. apply_secret_template sec tpl = Some sec' \<and> settled_after sec [] tpl sec'"
proof -
  have "template_wf tpl" using assms by (simp add: template_ok_def)
  then obtain sec' where "apply_secret_template sec tpl = Some sec'"
    "\<And>k. gm_get (s_labels sec') k
      = settled (set (atk_labels (previous_keys sec))) (template_labels tpl) (gm_get (s_labels sec) k) k"
    "\<And>k. k \<noteq> templateKeysAnnotation \<Longrightarrow> gm_get (s_annotations sec') k
      = settled (set (atk_annotations (previous_keys sec))) (template_annotations tpl) (gm_get (s_annotations sec) k) k"
    "s_data sec' = s_data sec"
    by (rule apply_secret_template_settles) blast
  then show ?thesis
    using previous_keys_applied [OF assms] by (auto simp: settled_after_def applied_keys_def)
qed

lemma settled_after_next:
  assumes "settled_after sec ts tpl sec1" and "template_ok tpl'"
  shows "\<exists>sec'. apply_secret_template sec1 tpl' = Some sec' \<and> settled_after sec (ts @ [tpl]) tpl' sec'"
proof -
  have keys: "previous_keys sec1 = keys_of_template tpl" using assms(1) by (simp add: settled_after_def)
  have un: "applied_keys part (ts @ [tpl]) = applied_keys part ts \<union> set (gm_keys (part tpl))" for part
    by (auto simp: applied_keys_def)
  obtain sec' where s: "apply_secret_template sec1 tpl' = Some sec'"
    "\<And>k. gm_get (s_labels sec') k
      = settled (set (gm_keys (template_labels tpl))) (template_labels tpl') (gm_get (s_labels sec1) k) k"
    "\<And>k. k \<noteq> templateKeysAnnotation \<Longrightarrow> gm_get (s_annotations sec') k
      = settled (set (gm_keys (template_annotations tpl))) (template_annotations tpl') (gm_get (s_annotations sec1) k) k"
    "s_data sec' = s_data sec1"
  proof -
    have "template_wf tpl'" using assms(2) by (simp add: template_ok_def)
    then show ?thesis
      using apply_secret_template_settles [of tpl' sec1] that by (force simp: keys keys_of_template_def)
  qed
  then show ?thesis
    using assms(1) previous_keys_applied [OF assms(2) s(1)]
    by (auto simp: settled_after_def settled_twice un Un_assoc)
qed

lemma settled_after_all:
  assumes "list_all template_ok ts" and "template_ok tpl"
  shows "\<exists>sec'. apply_templates sec (ts @ [tpl]) = Some sec' \<and> settled_after sec ts tpl sec'"
  using assms
proof (induction ts arbitrary: tpl rule: rev_induct)
  case Nil
  obtain sec' where "apply_secret_template sec tpl = Some sec'" "settled_after sec [] tpl sec'"
    using settled_after_first [OF Nil.prems(2)] by blast
  then show ?case by auto
next
  case (snoc t ts)
  then obtain sec1 where "apply_templates sec (ts @ [t]) = Some sec1" "settled_after sec ts t sec1" by auto
  then show ?case
    using settled_after_next [OF _ snoc.prems(2)] apply_templates_snoc [of sec "ts @ [t]"] by auto
qed

text \<open>
  C11: Template edits converge instead of accumulating: after any sequence of templates the labels
  and annotations are those of the last one; a key that only an earlier template applied (or the
  record on the Secret named) is gone, every other key is as it was, and the data is untouched.
\<close>

theorem template_edits_converge:
  assumes "list_all template_ok ts" and "template_ok tpl"
  shows "\<exists>sec'. apply_templates sec (ts @ [tpl]) = Some sec' \<and> s_data sec' = s_data sec
    \<and> (\<forall>k. gm_get (s_labels sec') k = (case gm_get (template_labels tpl) k of
          Some v \<Rightarrow> Some v
        | None \<Rightarrow> if k \<in> set (atk_labels (previous_keys sec)) \<or> (\<exists>t \<in> set ts. k \<in> set (gm_keys (template_labels t)))
                  then None else gm_get (s_labels sec) k))
    \<and> (\<forall>k. k \<noteq> templateKeysAnnotation \<longrightarrow> gm_get (s_annotations sec') k = (case gm_get (template_annotations tpl) k of
          Some v \<Rightarrow> Some v
        | None \<Rightarrow> if k \<in> set (atk_annotations (previous_keys sec))
                     \<or> (\<exists>t \<in> set ts. k \<in> set (gm_keys (template_annotations t)))
                  then None else gm_get (s_annotations sec) k))"
  using settled_after_all [OF assms, of sec]
  by (auto simp: settled_after_def settled_def applied_keys_def split: option.split)

theorem template_edits_converge_witness:
  "\<exists>sec'. apply_templates example_secret
      [Some \<lparr>tpl_labels = Some [(''team'', ''a'')], tpl_annotations = None\<rparr>,
       Some \<lparr>tpl_labels = Some [(''tier'', ''b'')], tpl_annotations = None\<rparr>] = Some sec'
    \<and> gm_get (s_labels sec') ''team'' = None \<and> gm_get (s_labels sec') ''tier'' = Some ''b''
    \<and> gm_get (s_labels sec') ''app.kubernetes.io/managed-by'' = Some ''tsidp-operator''"
proof -
  let ?a = "Some \<lparr>tpl_labels = Some [(''team'', ''a'')], tpl_annotations = None\<rparr> :: secret_template option"
  let ?b = "Some \<lparr>tpl_labels = Some [(''tier'', ''b'')], tpl_annotations = None\<rparr> :: secret_template option"
  have ok: "list_all template_ok [?a]" "template_ok ?b"
    by (simp_all add: template_ok_def template_wf_def template_labels_def template_annotations_def gm_wf_Some
        gm_keys_def ascii_valid_utf8 byte_def)
  show ?thesis
    using template_edits_converge [OF ok, of example_secret]
    by (auto simp: template_labels_def gm_keys_def example_secret_def previous_keys_def
        ManagedSecretLabels_def template_annotations_def)
qed

text \<open>
  C33: The record of the applied keys survives its round trip through the annotation: what
  \<open>json.Marshal\<close> writes, \<open>json.Unmarshal\<close> reads back, for every pair of key lists.
\<close>

theorem template_keys_roundtrip:
  assumes "list_all valid_utf8 (atk_labels k)" and "list_all valid_utf8 (atk_annotations k)"
  shows "unmarshal_template_keys (json_text (template_keys_json k)) = k"
  by (rule unmarshal_marshal_template_keys [OF assms])

theorem template_keys_roundtrip_witness:
  "unmarshal_template_keys (json_text (template_keys_json \<lparr>atk_labels = [''a/b'', ''c''], atk_annotations = []\<rparr>))
    = \<lparr>atk_labels = [''a/b'', ''c''], atk_annotations = []\<rparr>"
  by (rule template_keys_roundtrip) (simp_all add: ascii_valid_utf8 byte_def)

section \<open>Writing a Secret\<close>

text \<open>\<open>SetControllerReference\<close> changes the owner references only.\<close>

definition reference_only :: "reconciler \<Rightarrow> oidc_client \<Rightarrow> bool" where
  "reference_only R oc \<longleftrightarrow> (\<forall>s s'. set_controller_reference R oc s = Inr s' \<longrightarrow>
     s_data s' = s_data s \<and> s_labels s' = s_labels s)"

text \<open>The labels a write ends with, for any caller's part that leaves labels alone.\<close>

lemma managed_labels_put:
  "\<exists>m. gm_puts ManagedSecretLabels (gm_ensure l) = Some m
     \<and> gm_get m ''app.kubernetes.io/managed-by'' = Some ''tsidp-operator''"
  by (cases l) (simp_all add: ManagedSecretLabels_def gm_ensure_def update_conv')

lemma upsert_mutate_owner:
  "upsert_mutate R oc f sec = Inr sec' \<Longrightarrow> \<not> (s_created sec \<and> \<not> owned_by R oc sec)"
  by (auto simp: upsert_mutate_def split: if_splits)

text \<open>What the mutate function hands to \<open>SetControllerReference\<close>.\<close>

lemma upsert_mutate_cases:
  assumes "template_wf (SecretTemplate (Spec oc))" and "\<not> (s_created sec \<and> \<not> owned_by R oc sec)"
  obtains s1 where "s_data s1 = s_data sec" "same_meta sec s1"
    "gm_get (s_labels s1) ''app.kubernetes.io/managed-by'' = Some ''tsidp-operator''"
    "upsert_mutate R oc f sec = (case f s1 of
       None \<Rightarrow> Inl (GoPanic ''assignment to entry in nil map'') | Some s2 \<Rightarrow> set_controller_reference R oc s2)"
proof -
  obtain s0 where s0: "apply_secret_template sec (SecretTemplate (Spec oc)) = Some s0" "s_data s0 = s_data sec"
    "same_meta sec s0"
    using apply_secret_template_settles [OF assms(1), of sec] by metis
  obtain m where "gm_puts ManagedSecretLabels (gm_ensure (s_labels s0)) = Some m"
    "gm_get m ''app.kubernetes.io/managed-by'' = Some ''tsidp-operator''"
    using managed_labels_put by blast
  then show ?thesis
    using that [of "s0\<lparr>s_labels := m\<rparr>"] s0 assms(2) by (auto simp: upsert_mutate_def same_meta_def)
qed

lemma set_secret_metadata_keeps:
  assumes "set_secret_metadata s disc uris = Some s'"
  shows "s_labels s' = s_labels s" "same_meta s s'" "data_of s' ''client_id'' = data_of s ''client_id''"
    "data_of s' ''client_secret'' = data_of s ''client_secret''"
    "data_of s' ''issuer'' = pm_issuer disc" "data_of s' ''redirect_uris'' = join [CHR 0x0A] uris"
    "data_of s' ''jwks_uri'' = pm_jwks_uri disc"
proof -
  have e: "s'\<lparr>s_data := s_data s\<rparr> = s" and
    g: "gm_get (s_data s') k = (case map_of (metadata_entries disc uris) k of
           None \<Rightarrow> gm_get (s_data s) k | Some v \<Rightarrow> Some v)" for k
    using set_secret_metadata_effect [of s disc uris] assms by auto
  show "s_labels s' = s_labels s" using arg_cong [OF e, of s_labels] by simp
  show "same_meta s s'"
    using arg_cong [OF e, of s_owner_refs] arg_cong [OF e, of s_created]
      arg_cong [OF e, of s_name] arg_cong [OF e, of s_namespace]
    by (simp add: same_meta_def)
  show "data_of s' ''client_id'' = data_of s ''client_id''"
    "data_of s' ''client_secret'' = data_of s ''client_secret''"
    by (simp_all add: data_of_def g metadata_not_credentials)
  show "data_of s' ''issuer'' = pm_issuer disc" "data_of s' ''redirect_uris'' = join [CHR 0x0A] uris"
    "data_of s' ''jwks_uri'' = pm_jwks_uri disc"
    by (simp_all add: data_of_def g metadata_entries_def)
qed

lemma reference_only_simps:
  assumes "reference_only R oc" and "set_controller_reference R oc s = Inr s'"
  shows "data_of s' k = data_of s k" and "s_labels s' = s_labels s"
  using assms by (simp_all add: reference_only_def data_of_def)

lemma metadata_write:
  assumes "reference_only R oc" and "template_wf (SecretTemplate (Spec oc))"
    and "upsert_mutate R oc (\<lambda>s. set_secret_metadata s disc uris) sec = Inr sec'"
  shows "(s_created sec \<longrightarrow> owned_by R oc sec)
    \<and> data_of sec' ''client_id'' = data_of sec ''client_id''
    \<and> data_of sec' ''client_secret'' = data_of sec ''client_secret''
    \<and> data_of sec' ''issuer'' = pm_issuer disc \<and> data_of sec' ''redirect_uris'' = join [CHR 0x0A] uris
    \<and> gm_get (s_labels sec') ''app.kubernetes.io/managed-by'' = Some ''tsidp-operator''"
proof -
  note own = upsert_mutate_owner [OF assms(3)]
  obtain s1 where s1: "s_data s1 = s_data sec"
    "gm_get (s_labels s1) ''app.kubernetes.io/managed-by'' = Some ''tsidp-operator''"
    and "upsert_mutate R oc (\<lambda>s. set_secret_metadata s disc uris) sec = (case set_secret_metadata s1 disc uris of
       None \<Rightarrow> Inl (GoPanic ''assignment to entry in nil map'') | Some s2 \<Rightarrow> set_controller_reference R oc s2)"
    by (rule upsert_mutate_cases [OF assms(2) own, where f = "\<lambda>s. set_secret_metadata s disc uris"]) blast
  then obtain s2 where s2: "set_secret_metadata s1 disc uris = Some s2" "set_controller_reference R oc s2 = Inr sec'"
    using assms(3) by (auto split: option.splits)
  then show ?thesis
    using own s1 set_secret_metadata_keeps [OF s2(1)] reference_only_simps [OF assms(1) s2(2)]
    by (simp add: data_of_def)
qed

lemma credentials_write:
  assumes "reference_only R oc" and "template_wf (SecretTemplate (Spec oc))"
    and "fc_client_id resp \<noteq> [] \<and> fc_client_secret resp \<noteq> []"
    and "upsert_mutate R oc (write_credentials resp disc uris) sec = Inr sec'"
  shows "(s_created sec \<longrightarrow> owned_by R oc sec) \<and> holds_credentials sec' (fc_client_id resp)
    \<and> fc_client_id resp \<noteq> [] \<and> data_of sec' ''client_secret'' = fc_client_secret resp"
proof -
  note own = upsert_mutate_owner [OF assms(4)]
  obtain s1 where "upsert_mutate R oc (write_credentials resp disc uris) sec = (case write_credentials resp disc uris s1 of
       None \<Rightarrow> Inl (GoPanic ''assignment to entry in nil map'') | Some s2 \<Rightarrow> set_controller_reference R oc s2)"
    by (rule upsert_mutate_cases [OF assms(2) own, where f = "write_credentials resp disc uris"]) blast
  then obtain s2 where s2: "write_credentials resp disc uris s1 = Some s2" "set_controller_reference R oc s2 = Inr sec'"
    using assms(4) by (auto split: option.splits)
  then obtain d where d: "gm_puts [(''client_id'', fc_client_id resp), (''client_secret'', fc_client_secret resp)]
      (gm_ensure (s_data s1)) = Some d" and m: "set_secret_metadata (s1\<lparr>s_data := d\<rparr>) disc uris = Some s2"
    by (auto simp: write_credentials_def split: option.splits)
  have "gm_get d ''client_id'' = Some (fc_client_id resp)" "gm_get d ''client_secret'' = Some (fc_client_secret resp)"
    using gm_get_puts [OF d] by simp_all
  then have "data_of sec' ''client_id'' = fc_client_id resp" "data_of sec' ''client_secret'' = fc_client_secret resp"
    using set_secret_metadata_keeps(3,4) [OF m] reference_only_simps(1) [OF assms(1) s2(2)] by (simp_all add: data_of_def)
  then show ?thesis
    using own assms(3) by (simp add: holds_credentials_def)
qed

text \<open>
  C15: Converging the metadata never touches the credentials: when the write of \<open>reconcileNormal\<close> goes
  through, the Secret was absent or ours, its client_id and client_secret are as they were, and the
  issuer, the redirect URIs and the label the cache selects by are those of the object.
\<close>

theorem metadata_write_preserves_credentials:
  assumes "reference_only R oc" and "template_wf (SecretTemplate (Spec oc))"
    and "upsert_mutate R oc (\<lambda>s. set_secret_metadata s disc uris) sec = Inr sec'"
  shows "(s_created sec \<longrightarrow> owned_by R oc sec)
    \<and> data_of sec' ''client_id'' = data_of sec ''client_id''
    \<and> data_of sec' ''client_secret'' = data_of sec ''client_secret''
    \<and> data_of sec' ''issuer'' = pm_issuer disc \<and> data_of sec' ''redirect_uris'' = join [CHR 0x0A] uris
    \<and> gm_get (s_labels sec') ''app.kubernetes.io/managed-by'' = Some ''tsidp-operator''"
  by (rule metadata_write [OF assms])

text \<open>
  C16: What \<open>Register\<close> returns is what the Secret holds: when the write after a registration goes
  through, the Secret was absent or ours and holds usable credentials of the new client, with the secret tsidp
  returned.
\<close>

theorem registered_credentials_stored:
  assumes "reference_only R oc" and "template_wf (SecretTemplate (Spec oc))"
    and "register http c (registration_of oc) w = (Inr resp, w')"
    and "upsert_mutate R oc (write_credentials resp disc uris) sec = Inr sec'"
  shows "(s_created sec \<longrightarrow> owned_by R oc sec) \<and> holds_credentials sec' (fc_client_id resp)
    \<and> fc_client_id resp \<noteq> [] \<and> data_of sec' ''client_secret'' = fc_client_secret resp"
  by (rule credentials_write [OF assms(1,2) register_complete [OF assms(3)] assms(4)])

text \<open>The two functions that are written are total.\<close>

lemma metadata_total: "\<exists>s'. set_secret_metadata s disc uris = Some s'"
  using set_secret_metadata_effect by blast

lemma credentials_total: "\<exists>s'. write_credentials resp disc uris s = Some s'"
proof -
  obtain d where "gm_puts [(''client_id'', fc_client_id resp), (''client_secret'', fc_client_secret resp)]
      (gm_ensure (s_data s)) = Some d"
    using gm_puts_total by blast
  then show ?thesis using metadata_total by (simp add: write_credentials_def)
qed

lemma upsert_mutate_total:
  assumes "template_wf (SecretTemplate (Spec oc))" and "\<not> (s_created sec \<and> \<not> owned_by R oc sec)"
    and "\<And>s. \<exists>s'. f s = Some s'"
  shows "\<exists>s. upsert_mutate R oc f sec = set_controller_reference R oc s"
proof -
  obtain s1 where "upsert_mutate R oc f sec = (case f s1 of
       None \<Rightarrow> Inl (GoPanic ''assignment to entry in nil map'') | Some s2 \<Rightarrow> set_controller_reference R oc s2)"
    by (rule upsert_mutate_cases [OF assms(1,2), where f = f]) blast
  then show ?thesis using assms(3) [of s1] by auto
qed

text \<open>
  C17: No write of a Secret panics on a nil map, and a Secret that exists and is not controlled by the
  object is refused before anything is changed: the mutate function of \<open>upsertSecret\<close> returns the refusal exactly
  then, and otherwise what \<open>SetControllerReference\<close> returns.
\<close>

theorem upsert_refuses_foreign:
  assumes "template_wf (SecretTemplate (Spec oc))"
    and "f = write_credentials resp disc uris \<or> f = (\<lambda>s. set_secret_metadata s disc uris)"
  shows "if s_created sec \<and> \<not> owned_by R oc sec
    then upsert_mutate R oc f sec
      = Inl (Errorf ''refusing to overwrite Secret %s/%s: not owned by this OIDCClient''
          [FStr (oc_namespace oc), FStr (s_name sec)])
    else \<exists>s. upsert_mutate R oc f sec = set_controller_reference R oc s"
  using upsert_mutate_total [OF assms(1), of sec R f] assms(2) metadata_total credentials_total
  by (auto simp: upsert_mutate_def)

section \<open>Witnesses\<close>

lemma example_template_wf: "template_wf (SecretTemplate (Spec example_object))"
  by (simp add: template_wf_def template_labels_def template_annotations_def example_spec_def gm_wf_Some)

lemma example_reference_only: "reference_only example_reconciler oc"
  by (simp add: reference_only_def example_reconciler_def)

lemma example_write:
  assumes "\<And>s. \<exists>s'. f s = Some s'"
  shows "\<exists>sec'. upsert_mutate example_reconciler example_object f example_secret = Inr sec'"
proof -
  have "\<exists>s'. set_controller_reference example_reconciler oc s = Inr s'" for oc s
    by (simp add: example_reconciler_def)
  then show ?thesis
    using upsert_mutate_total [OF example_template_wf, of example_secret example_reconciler f] assms
    by (metis example_secret_simps(2))
qed

theorem metadata_write_preserves_credentials_witness:
  "\<exists>sec'. upsert_mutate example_reconciler example_object (\<lambda>s. set_secret_metadata s example_metadata [''https://a/cb''])
      example_secret = Inr sec' \<and> data_of sec' ''client_secret'' = ''s1''
    \<and> data_of sec' ''redirect_uris'' = ''https://a/cb''"
proof -
  obtain sec' where u: "upsert_mutate example_reconciler example_object
      (\<lambda>s. set_secret_metadata s example_metadata [''https://a/cb'']) example_secret = Inr sec'"
    using example_write [of "\<lambda>s. set_secret_metadata s example_metadata [''https://a/cb'']"] metadata_total by blast
  have "data_of example_secret ''client_secret'' = ''s1''" by (simp add: data_of_def example_secret_def)
  then show ?thesis
    using u metadata_write_preserves_credentials [OF example_reference_only example_template_wf u] by simp
qed

theorem registered_credentials_stored_witness:
  "\<exists>resp w' sec'. register (fake_http ''http://t'' ''now'') \<lparr>BaseURL = ''http://t''\<rparr> (registration_of example_object)
      (new_server ''http://t'') = (Inr resp, w')
    \<and> upsert_mutate example_reconciler example_object (write_credentials resp example_metadata []) example_secret = Inr sec'
    \<and> holds_credentials sec' (fc_client_id resp)"
proof -
  obtain resp w' where r: "register (fake_http ''http://t'' ''now'') \<lparr>BaseURL = ''http://t''\<rparr>
      (registration_of example_object) (new_server ''http://t'') = (Inr resp, w')"
    using register_fake [of "\<lparr>BaseURL = ''http://t''\<rparr>" "''http://t''" "new_server ''http://t''" "[]"
        "registration_of example_object" "''now''"]
    by (auto simp: new_server_def registration_of_def)
  obtain sec' where u: "upsert_mutate example_reconciler example_object
      (write_credentials resp example_metadata []) example_secret = Inr sec'"
    using example_write [of "write_credentials resp example_metadata []"] credentials_total by blast
  show ?thesis
    using r u registered_credentials_stored [OF example_reference_only example_template_wf r u] by blast
qed

theorem upsert_refuses_foreign_witness:
  "upsert_mutate example_reconciler example_object (write_credentials example_remote example_metadata [])
     (example_secret\<lparr>s_owner_refs := []\<rparr>)
   = Inl (Errorf ''refusing to overwrite Secret %s/%s: not owned by this OIDCClient'' [FStr ''team'', FStr ''app-oidc''])"
proof -
  have "\<not> owned_by example_reconciler example_object (example_secret\<lparr>s_owner_refs := []\<rparr>)"
    by (simp add: owned_by_def example_reconciler_def)
  then show ?thesis
    using upsert_refuses_foreign [OF example_template_wf disjI1 [OF refl],
        of "example_secret\<lparr>s_owner_refs := []\<rparr>" example_reconciler example_remote example_metadata "[]"]
    by (simp add: example_secret_def)
qed

end
