(* ===== verification/Convergence.thy ===== *)
theory Convergence
  imports Cluster Registry PassProperties SecretProperties
begin

text \<open>
  Convergence in the closed world of \<open>Cluster\<close>: when nothing disturbs it, one reconcile of a new
  object ends with the object registered, its credentials in the Secret and Ready true (\<open>in_sync\<close>);
  every further reconcile keeps that state and leaves tsidp alone; and one reconcile of a deleted
  object takes its registration away and lets the object go.
\<close>

section \<open>What is relied on\<close>

text \<open>The documented behaviour of the helpers of controller-runtime and apimachinery.\<close>

definition library_laws :: "reconciler \<Rightarrow> bool" where
  "library_laws R \<longleftrightarrow>
     (\<forall>fs f. contains_finalizer R fs f \<longleftrightarrow> f \<in> set fs)
     \<and> (\<forall>fs f. set (add_finalizer R fs f) = insert f (set fs))
     \<and> (\<forall>fs f. set (remove_finalizer R fs f) = set fs - {f})
     \<and> (\<forall>cs c. c_type c = ConditionReady \<longrightarrow> ready_status (set_status_condition R cs c) = Some (c_status c))
     \<and> (\<forall>oc s s'. set_controller_reference R oc s = Inr s' \<longrightarrow>
          owned_by R oc s' \<and> (\<exists>refs. s' = s\<lparr>s_owner_refs := refs\<rparr>))
     \<and> (\<forall>oc s. owned_by R oc s \<or> s_owner_refs s = [] \<longrightarrow> (\<exists>s'. set_controller_reference R oc s = Inr s'))"

lemma library_lawsD:
  assumes "library_laws R"
  shows "contains_finalizer R fs f \<longleftrightarrow> f \<in> set fs"
    and "set (add_finalizer R fs f) = insert f (set fs)"
    and "set (remove_finalizer R fs f) = set fs - {f}"
    and "c_type c = ConditionReady \<Longrightarrow> ready_status (set_status_condition R cs c) = Some (c_status c)"
    and "owned_by R oc s \<or> s_owner_refs s = [] \<Longrightarrow> \<exists>s'. set_controller_reference R oc s = Inr s'"
  using assms unfolding library_laws_def by blast+

lemma library_reference:
  assumes "library_laws R" and "set_controller_reference R oc s = Inr s'"
  obtains refs where "owned_by R oc s'" "s' = s\<lparr>s_owner_refs := refs\<rparr>"
  using assms unfolding library_laws_def by blast

lemma library_reference_only: "library_laws R \<Longrightarrow> reference_only R oc"
  unfolding reference_only_def by (auto elim: library_reference)

text \<open>What the API server guarantees of a stored spec, with the URIs the reconciler accepts and text that is UTF-8.\<close>

definition sound_spec :: "oidc_client \<Rightarrow> bool" where
  "sound_spec oc \<longleftrightarrow> well_named oc \<and> spec_admitted (Spec oc) \<and> find bad_uri (RedirectURIs (Spec oc)) = None
     \<and> template_wf (SecretTemplate (Spec oc))
     \<and> valid_utf8 (registered_name oc) \<and> list_all valid_utf8 (RedirectURIs (Spec oc))"

text \<open>Names, ownership and drift depend on the identity and the spec only.\<close>

lemma identity_cong:
  assumes "oc_name y = oc_name x" "oc_namespace y = oc_namespace x" "oc_uid y = oc_uid x" "Spec y = Spec x"
  shows "fingerprint y = fingerprint x" "registered_name y = registered_name x" "secret_name y = secret_name x"
    "drifted y = drifted x" "owned_by R y = owned_by R x" "sound_spec y = sound_spec x"
    "registration_of y = registration_of x"
proof -
  show f: "fingerprint y = fingerprint x" by (simp add: fingerprint_def assms)
  show r: "registered_name y = registered_name x" 
    by (simp add: registered_name_def display_name_def f assms Let_def)
  show "secret_name y = secret_name x" by (simp add: secret_name_def assms)
  show "drifted y = drifted x" by (simp add: drifted_def r assms fun_eq_iff)
  show "owned_by R y = owned_by R x" by (simp add: owned_by_def assms fun_eq_iff split: option.split)
  show "sound_spec y = sound_spec x" by (simp add: sound_spec_def well_named_def plain_metadata_def r assms)
  show "registration_of y = registration_of x" by (simp add: registration_of_def r assms)
qed

section \<open>Writing the Secret\<close>

lemma managed_selected:
  "gm_get (s_labels s) ''app.kubernetes.io/managed-by'' = Some ''tsidp-operator'' \<Longrightarrow> secret_selected s"
  by (simp add: secret_selected_def ManagedSecretLabels_def)

lemma upsert_write:
  assumes R: "library_laws R" and t: "template_wf (SecretTemplate (Spec oc))"
    and own: "s_created sec \<Longrightarrow> owned_by R oc sec" and new: "\<not> s_created sec \<Longrightarrow> s_owner_refs sec = []"
    and f: "\<And>s. \<exists>s'. f s = Some s'" and keep: "\<And>s s'. f s = Some s' \<Longrightarrow> s_labels s' = s_labels s \<and> same_meta s s'"
  shows "\<exists>sec'. upsert_mutate R oc f sec = Inr sec' \<and> owned_by R oc sec' \<and> secret_selected sec'
    \<and> s_created sec' = s_created sec"
proof -
  have o: "\<not> (s_created sec \<and> \<not> owned_by R oc sec)" using own by blast
  obtain s1 where s1: "same_meta sec s1"
    "gm_get (s_labels s1) ''app.kubernetes.io/managed-by'' = Some ''tsidp-operator''"
    and u: "upsert_mutate R oc f sec = (case f s1 of
       None \<Rightarrow> Inl (GoPanic ''assignment to entry in nil map'') | Some s2 \<Rightarrow> set_controller_reference R oc s2)"
    by (rule upsert_mutate_cases [OF t o, where f = f]) blast
  obtain s2 where s2: "f s1 = Some s2" using f by blast
  have m: "same_meta sec s2" "gm_get (s_labels s2) ''app.kubernetes.io/managed-by'' = Some ''tsidp-operator''"
    using keep [OF s2] s1 by (simp_all add: same_meta_def)
  have "owned_by R oc s2 \<or> s_owner_refs s2 = []"
    using own new m(1) by (cases "s_created sec") (auto simp: same_meta_def owned_by_def)
  then obtain s3 where s3: "set_controller_reference R oc s2 = Inr s3"
    using library_lawsD(5) [OF R] by blast
  then obtain refs where "owned_by R oc s3" "s3 = s2\<lparr>s_owner_refs := refs\<rparr>"
    by (rule library_reference [OF R])
  moreover from this have "secret_selected s3" "s_created s3 = s_created sec"
    using managed_selected m by (simp_all add: same_meta_def)
  moreover have "upsert_mutate R oc f sec = Inr s3" using u s2 s3 by simp
  ultimately show ?thesis by blast
qed

section \<open>Runs of the handlers\<close>

lemma live_run:
  assumes "e_get_oidc E ns n w = (Inr oc, w1)" and "oc_deletion_timestamp oc = None"
    and "contains_finalizer R (oc_finalizers oc) FinalizerName"
    and "run E (reconcile_normal R oc) w1 = ((x, res, None), w2, t)"
    and "e_update_status E (observe_generation x) w2 = (Inr y, w3)"
  shows "run E (reconcile R ns n) w
    = ((res, None), w3, CGetOIDC ns n (Inr oc) # t @ [CUpdateStatus (observe_generation x) (Inr y)])"
  using assms by (simp add: reconcile_def ensure_finalizer_def run_bind log_call_def)

lemma first_live_run:
  assumes "e_get_oidc E ns n w = (Inr oc, w1)" and "oc_deletion_timestamp oc = None"
    and "\<not> contains_finalizer R (oc_finalizers oc) FinalizerName"
    and "e_update_oidc E (with_finalizer R oc) w1 = (Inr oc1, w2)"
    and "run E (reconcile_normal R oc1) w2 = ((x, res, None), w3, t)"
    and "e_update_status E (observe_generation x) w3 = (Inr y, w4)"
  shows "run E (reconcile R ns n) w = ((res, None), w4,
    CGetOIDC ns n (Inr oc) # CUpdateOIDC (with_finalizer R oc) (Inr oc1) # t @ [CUpdateStatus (observe_generation x) (Inr y)])"
  using assms by (simp add: reconcile_def ensure_finalizer_def with_finalizer_def run_bind log_call_def)

text \<open>The pass that registers.\<close>

lemma registering_pass:
  assumes "find bad_uri (RedirectURIs (Spec oc)) = None" and "client_id oc = []"
    and "st_secret_name (Status oc) \<in> {[], secret_name oc}"
    and "e_discovery E w = (Inr disc, w1)"
    and "e_read_secret E (oc_namespace oc) (secret_name oc) w1 = (Inl KNotFound, w2)"
    and "e_list_clients E w2 = (Inr l, w3)" and "\<forall>fc \<in> set l. \<not> contains (fc_client_name fc) (fingerprint oc)"
    and "e_register E (registration_of oc) w3 = (Inr resp, w4)"
    and m: "m = upsert_mutate R (set_issuer (pm_issuer disc) oc) (write_credentials resp disc (RedirectURIs (Spec oc)))"
    and "e_upsert_secret E (oc_namespace oc) (secret_name oc) m w4 = (None, w5)"
  shows "\<exists>ev t. run E (reconcile_normal R oc) w =
    ((mark_ready R (set_status_secret (secret_name oc) (set_client_id (fc_client_id resp) (set_issuer (pm_issuer disc) oc))),
      requeue (ResyncInterval R), None), e_emit E ev w5, t)
    \<and> CRegister (registration_of oc) (Inr resp) \<in> set t"
proof -
  have "find (\<lambda>fc. contains (fc_client_name fc) (fingerprint oc)) l = None"
    using assms(7) by (auto simp: find_None_iff)
  then show ?thesis
    using assms(1-6,8,10)
    by (auto simp: reconcile_normal_def rename_cleanup_def ensure_registered_def register_or_adopt_def
        secret_adoptable_def register_new_def upsert_secret_def run_bind log_call_def m Let_def)
qed

section \<open>Discovery at the server\<close>

definition metadata_of :: "fake_server \<Rightarrow> provider_metadata" where
  "metadata_of s =
     \<lparr>pm_issuer = utf8 (fs_issuer s), pm_authorization_endpoint = utf8 (fs_issuer s @ ''/authorize''),
      pm_token_endpoint = utf8 (fs_issuer s @ ''/token''), pm_userinfo_endpoint = utf8 (fs_issuer s @ ''/userinfo''),
      pm_jwks_uri = utf8 (fs_issuer s @ ''/.well-known/jwks.json'')\<rparr>"

lemma utf8_eq_Nil: "utf8 s = [] \<longleftrightarrow> s = []"
  using runes_utf8 [of s] by (metis runes_eq_Nil utf8_Nil)

lemma decode_discovery: "decode_body decode_metadata (rs_body (serve_discovery s)) = Inr (metadata_of s)"
proof -
  define j where "j = JObj
     [(''authorization_endpoint'', JStr (fs_issuer s @ ''/authorize'')),
      (''issuer'', JStr (fs_issuer s)),
      (''jwks_uri'', JStr (fs_issuer s @ ''/.well-known/jwks.json'')),
      (''token_endpoint'', JStr (fs_issuer s @ ''/token'')),
      (''userinfo_endpoint'', JStr (fs_issuer s @ ''/userinfo''))]"
  have "json_decode (json_text j @ [CHR 0x0A]) = Some (sanitize j)"
    by (rule json_decode_printed) (simp_all add: j_def max_nesting_def)
  moreover have "decode_metadata (sanitize j) = (metadata_of s, False)"
    by (simp add: j_def plain_name_utf8 decode_metadata_def dec_struct_def store_metadata_def key_is_plain
        dec_string_def metadata_of_def Let_def)
  moreover have "rs_body (serve_discovery s) = json_text j @ [CHR 0x0A]"
    by (simp add: serve_discovery_def json_body_def j_def)
  ultimately show ?thesis by (simp add: decode_body_def)
qed

lemma discovery_fake:
  assumes "BaseURL c = base" and "fs_issuer s \<noteq> []"
  shows "discovery (fake_http base now) c s = (Inr (metadata_of s), s)"
proof -
  have "rs_status (serve_discovery s) = 200" by (simp add: serve_discovery_def)
  moreover have "pm_issuer (metadata_of s) \<noteq> []" using assms(2) by (simp add: metadata_of_def utf8_eq_Nil)
  ultimately show ?thesis
    unfolding discovery_def fake_delivery [OF fixed_paths(3) assms(1)] dispatch
    by (simp add: decode_discovery)
qed

section \<open>The converged state\<close>

text \<open>The object is live, registered and ready.\<close>

definition ready_object :: "oidc_client \<Rightarrow> bool" where
  "ready_object oc \<longleftrightarrow> oc_deletion_timestamp oc = None \<and> FinalizerName \<in> set (oc_finalizers oc) \<and> sound_spec oc
     \<and> client_id oc \<noteq> [] \<and> st_secret_name (Status oc) = secret_name oc
     \<and> ready_status (st_conditions (Status oc)) = Some ''True''"

text \<open>Its Secret is there, managed, ours and holds its credentials; its registration is there as the spec says.\<close>

definition backed :: "reconciler \<Rightarrow> world \<Rightarrow> oidc_client \<Rightarrow> bool" where
  "backed R w oc \<longleftrightarrow>
     (\<exists>sec. w_secrets w (oc_namespace oc, secret_name oc) = Some sec \<and> s_created sec \<and> owned_by R oc sec
        \<and> secret_selected sec \<and> holds_credentials sec (client_id oc))
     \<and> (\<exists>x. gm_get (fs_clients (w_tsidp w)) (client_id oc) = Some x \<and> \<not> drifted oc (seen (blank_secret x)))
     \<and> fs_issuer (w_tsidp w) \<noteq> []"

definition in_sync :: "reconciler \<Rightarrow> string \<Rightarrow> string \<Rightarrow> world \<Rightarrow> bool" where
  "in_sync R ns n w \<longleftrightarrow> (\<exists>oc. w_objects w (ns, n) = Some oc \<and> key_of oc = (ns, n) \<and> ready_object oc \<and> backed R w oc)"

text \<open>The status write at the end of a pass.\<close>

lemma same_object_status:
  assumes "same_object oc x"
  obtains st where "x = oc\<lparr>Status := st\<rparr>"
  using assms unfolding same_object_def by (metis oidc_client.surjective oidc_client.update_convs(10))

lemma status_written:
  assumes "w_objects w (key_of oc) = Some oc" and "same_object oc x"
  defines "y \<equiv> oc\<lparr>oc_resource_version := decimal (w_clock w), Status := Status (observe_generation x)\<rparr>"
  shows "api_update_status (observe_generation x) w = (Inr y, store_object y w)"
proof -
  obtain st where "x = oc\<lparr>Status := st\<rparr>" using assms(2) by (rule same_object_status)
  then have "key_of x = key_of oc" "oc_resource_version x = oc_resource_version oc" "oc_uid x = oc_uid oc"
    by simp_all
  then show ?thesis
    using assms(1) by (simp add: api_update_status_def observe_generation_def y_def Let_def)
qed

lemma in_sync_written:
  assumes "w_objects w (key_of oc) = Some oc" and "same_object oc x" and "ready_object x" and "backed R w x"
  shows "\<exists>y. api_update_status (observe_generation x) w = (Inr y, store_object y w)
    \<and> in_sync R (oc_namespace oc) (oc_name oc) (store_object y w)
    \<and> w_objects (store_object y w) (key_of oc) = Some y \<and> client_id y = client_id x"
proof -
  define y where "y = oc\<lparr>oc_resource_version := decimal (w_clock w), Status := Status (observe_generation x)\<rparr>"
  obtain s where x: "x = oc\<lparr>Status := s\<rparr>" using assms(2) by (rule same_object_status)
  then have id: "oc_name x = oc_name oc" "oc_namespace x = oc_namespace oc" "oc_uid x = oc_uid oc" "Spec x = Spec oc"
    "oc_deletion_timestamp x = oc_deletion_timestamp oc" "oc_finalizers x = oc_finalizers oc"
    by simp_all
  have st: "client_id y = client_id x" "st_secret_name (Status y) = st_secret_name (Status x)"
    "st_conditions (Status y) = st_conditions (Status x)"
    by (simp_all add: y_def observe_generation_def)
  have y: "oc_name y = oc_name x" "oc_namespace y = oc_namespace x" "oc_uid y = oc_uid x" "Spec y = Spec x"
    using id by (simp_all add: y_def)
  note c = identity_cong [OF y]
  have "ready_object y"
    using assms(3) id by (simp add: ready_object_def st c) (simp add: y_def)
  moreover have "backed R (store_object y w) y"
    using assms(4) by (simp add: backed_def st c y) (simp add: store_object_def)
  moreover have "api_update_status (observe_generation x) w = (Inr y, store_object y w)"
    unfolding y_def by (rule status_written [OF assms(1,2)])
  ultimately show ?thesis
    using y(1,2) id(1,2) st(1) by (auto simp: in_sync_def)
qed

section \<open>The first reconcile\<close>

lemma world_calls:
  "e_list_clients (world_env base) w = (Inr (map (\<lambda>(k, x). seen (blank_secret x)) (gm_entries (fs_clients (w_tsidp w)))), w)"
  "fs_issuer (w_tsidp w) \<noteq> [] \<Longrightarrow> e_discovery (world_env base) w = (Inr (metadata_of (w_tsidp w)), w)"
  "i \<noteq> [] \<Longrightarrow> e_get_client (world_env base) i w = (case gm_get (fs_clients (w_tsidp w)) i of
     None \<Rightarrow> (Inl ErrNotFound, w) | Some x \<Rightarrow> (Inr (seen (blank_secret x)), w))"
  "i \<noteq> [] \<Longrightarrow> e_delete_client (world_env base) i w = (case gm_get (fs_clients (w_tsidp w)) i of
     None \<Rightarrow> (Some ErrNotFound, w)
   | Some x \<Rightarrow> (None, w\<lparr>w_tsidp := (w_tsidp w)\<lparr>fs_clients := gm_delete i (fs_clients (w_tsidp w))\<rparr>\<rparr>))"
  by (auto simp: on_tsidp_eq list_fake discovery_fake get_fake delete_fake split: option.split)

lemma untagged_list:
  assumes "tagged (world_clients w) f = {}"
  shows "\<forall>fc \<in> set (map (\<lambda>(k, x). seen (blank_secret x)) (gm_entries (fs_clients (w_tsidp w)))).
    \<not> contains (fc_client_name fc) f"
  using assms by (force simp: tagged_def world_clients_def server_clients_def seen_def blank_secret_def)

text \<open>The write of the Secret, created or found.\<close>

lemma upsert_created:
  fixes disc :: provider_metadata and uris :: "string list"
  assumes R: "library_laws R" and t: "template_wf (SecretTemplate (Spec oc))"
    and none: "w_secrets w (ns, k) = None" and r: "fc_client_id resp \<noteq> [] \<and> fc_client_secret resp \<noteq> []"
  defines "m \<equiv> upsert_mutate R oc (write_credentials resp disc uris)"
  shows "\<exists>sec w'. api_upsert_secret ns k m w = (None, w') \<and> w_secrets w' (ns, k) = Some sec
    \<and> w_objects w' = w_objects w \<and> w_tsidp w' = w_tsidp w
    \<and> s_created sec \<and> owned_by R oc sec \<and> secret_selected sec \<and> holds_credentials sec (fc_client_id resp)"
proof -
  have keep: "s_labels s' = s_labels s \<and> same_meta s s'" if "write_credentials resp disc uris s = Some s'" for s s'
    using that set_secret_metadata_keeps(1,2)
    by (fastforce simp: write_credentials_def same_meta_def split: option.splits)
  have "\<exists>sec'. m (empty_secret ns k) = Inr sec' \<and> owned_by R oc sec' \<and> secret_selected sec'
      \<and> s_created sec' = s_created (empty_secret ns k)"
    unfolding m_def
    by (rule upsert_write [OF R t _ _ credentials_total keep]) (simp_all add: empty_secret_def)
  then obtain sec where s: "m (empty_secret ns k) = Inr sec" "owned_by R oc sec" "secret_selected sec" by blast
  have h: "holds_credentials sec (fc_client_id resp)"
    using credentials_write [OF library_reference_only [OF R] t r s(1) [unfolded m_def]] by blast
  let ?s = "sec\<lparr>s_uid := decimal (w_clock w), s_created := True\<rparr>"
  have "owned_by R oc ?s" "secret_selected ?s" "holds_credentials ?s (fc_client_id resp)"
    using s(2,3) h by (simp_all add: owned_by_def secret_selected_def holds_credentials_def data_of_def)
  then show ?thesis
    using none s(1) by (simp add: api_upsert_secret_def cached_def Let_def)
qed

lemma cached_selected: "secret_selected s \<Longrightarrow> cached (Some s) = Some s"
  by (simp add: cached_def cached_secret_def watches_def)

lemma upsert_found:
  fixes disc :: provider_metadata and uris :: "string list"
  assumes R: "library_laws R" and t: "template_wf (SecretTemplate (Spec oc))"
    and sec: "w_secrets w (ns, k) = Some sec" "s_created sec" "owned_by R oc sec" "secret_selected sec"
  defines "m \<equiv> upsert_mutate R oc (\<lambda>s. set_secret_metadata s disc uris)"
  shows "\<exists>sec' w'. api_upsert_secret ns k m w = (None, w') \<and> w_secrets w' (ns, k) = Some sec'
    \<and> w_objects w' = w_objects w \<and> w_tsidp w' = w_tsidp w
    \<and> s_created sec' \<and> owned_by R oc sec' \<and> secret_selected sec'
    \<and> (\<forall>i. holds_credentials sec' i = holds_credentials sec i)"
proof -
  have "\<exists>sec'. m sec = Inr sec' \<and> owned_by R oc sec' \<and> secret_selected sec' \<and> s_created sec' = s_created sec"
    unfolding m_def
    by (rule upsert_write [OF R t _ _ metadata_total]) (use sec set_secret_metadata_keeps(1,2) in auto)
  then obtain sec' where s: "m sec = Inr sec'" "owned_by R oc sec'" "secret_selected sec'" "s_created sec'"
    using sec(2) by blast
  have "holds_credentials sec' i = holds_credentials sec i" for i
    using metadata_write [OF library_reference_only [OF R] t s(1) [unfolded m_def]]
    by (simp add: holds_credentials_def)
  then show ?thesis
    using sec s by (simp add: api_upsert_secret_def cached_selected Let_def)
qed

text \<open>A new object in a quiet world: no client, no Secret, no registration.\<close>

definition unregistered :: "string \<Rightarrow> string \<Rightarrow> world \<Rightarrow> bool" where
  "unregistered ns n w \<longleftrightarrow> (\<exists>oc. w_objects w (ns, n) = Some oc \<and> key_of oc = (ns, n)
     \<and> oc_deletion_timestamp oc = None \<and> sound_spec oc \<and> client_id oc = [] \<and> st_secret_name (Status oc) = []
     \<and> w_secrets w (ns, secret_name oc) = None \<and> tagged (world_clients w) (fingerprint oc) = {}
     \<and> fs_clients (w_tsidp w) \<noteq> None \<and> fs_issuer (w_tsidp w) \<noteq> [])"

lemma registering_world:
  assumes R: "library_laws R" and o: "sound_spec oc" "oc_deletion_timestamp oc = None"
    "FinalizerName \<in> set (oc_finalizers oc)" "client_id oc = []" "st_secret_name (Status oc) = []"
    and s: "w_secrets w (oc_namespace oc, secret_name oc) = None"
    and t: "tagged (world_clients w) (fingerprint oc) = {}"
    and f: "fs_clients (w_tsidp w) \<noteq> None" "fs_issuer (w_tsidp w) \<noteq> []"
  shows "\<exists>x w' t. run (world_env base) (reconcile_normal R oc) w = ((x, requeue (ResyncInterval R), None), w', t)
    \<and> same_object oc x \<and> ready_object x \<and> backed R w' x \<and> w_objects w' = w_objects w
    \<and> (\<forall>i. i \<noteq> client_id x \<longrightarrow> gm_get (fs_clients (w_tsidp w')) i = gm_get (fs_clients (w_tsidp w)) i)"
proof -
  obtain al where al: "fs_clients (w_tsidp w) = Some al" using f(1) by blast
  have uris: "rr_redirect_uris (registration_of oc) \<noteq> []"
    using o(1) by (auto simp: sound_spec_def spec_admitted_def registration_of_def)
  define x0 where "x0 = registered_as (w_now w) (registration_of oc) (fs_next_id (w_tsidp w) + 1)"
  define s1 where "s1 = (w_tsidp w)\<lparr>fs_clients := Some (AList.update (fk_client_id x0) x0 al),
    fs_next_id := fs_next_id (w_tsidp w) + 1\<rparr>"
  let ?w1 = "w\<lparr>w_tsidp := s1\<rparr>" and ?disc = "metadata_of (w_tsidp w)" and ?resp = "seen x0"
  have reg: "e_register (world_env base) (registration_of oc) w = (Inr ?resp, ?w1)"
    using register_fake [OF _ al uris] by (simp add: on_tsidp_eq x0_def s1_def)
  have utf8: "utf8 (registered_name oc) = registered_name oc" "map utf8 (RedirectURIs (Spec oc)) = RedirectURIs (Spec oc)"
    using o(1) utf8_valid by (auto simp: sound_spec_def list_all_iff intro: map_idI)
  have id: "fc_client_id ?resp = fk_client_id x0" "fk_client_id x0 \<noteq> []"
    using utf8_ascii [OF generated_ascii(1)] by (simp_all add: x0_def seen_def, simp add: registered_as_def)
  have full: "fc_client_id ?resp \<noteq> [] \<and> fc_client_secret ?resp \<noteq> []"
    using id by (simp add: seen_def x0_def utf8_eq_Nil registered_as_def)
  have tw: "template_wf (SecretTemplate (Spec (set_issuer (pm_issuer ?disc) oc)))"
    using o(1) by (simp add: sound_spec_def)
  obtain sec w2 where u: "api_upsert_secret (oc_namespace oc) (secret_name oc)
      (upsert_mutate R (set_issuer (pm_issuer ?disc) oc) (write_credentials ?resp ?disc (RedirectURIs (Spec oc)))) ?w1 = (None, w2)"
    "w_secrets w2 (oc_namespace oc, secret_name oc) = Some sec" "w_objects w2 = w_objects w" "w_tsidp w2 = s1"
    "s_created sec" "owned_by R oc sec" "secret_selected sec" "holds_credentials sec (fk_client_id x0)"
    using upsert_created [OF R tw _ full, of ?w1 "oc_namespace oc" "secret_name oc" ?disc "RedirectURIs (Spec oc)"] s id(1)
    by auto
  define x where "x = mark_ready R (set_status_secret (secret_name oc)
    (set_client_id (fc_client_id ?resp) (set_issuer (pm_issuer ?disc) oc)))"
  have run: "\<exists>ev t. run (world_env base) (reconcile_normal R oc) w =
      ((x, requeue (ResyncInterval R), None), e_emit (world_env base) ev w2, t)"
    using registering_pass [of oc "world_env base" w ?disc w w _ w "?resp" ?w1 _ R w2, OF _ o(4) _ _ _ world_calls(1) _ reg refl]
      o(1,5) world_calls(2) [OF f(2)] untagged_list [OF t] s u(1)
    by (fastforce simp: sound_spec_def x_def api_read_secret_def)
  have same: "same_object oc x"
    by (simp add: x_def mark_ready_def same_object_def set_cond_def set_status_secret_def set_client_id_def set_issuer_def)
  note d = same_objectD [OF same]
  have ready: "ready_object x"
  proof -
    have "ready_status (st_conditions (Status x)) = Some ''True''"
      using library_lawsD(4) [OF R] by (simp add: x_def mark_ready_def set_cond_def)
    moreover have "sound_spec x" using o(1) identity_cong(6) [of x oc] d(1-4) by simp
    moreover have "oc_deletion_timestamp x = None" "oc_finalizers x = oc_finalizers oc"
      using o(2) by (simp_all add: x_def mark_ready_def set_cond_def set_status_secret_def set_client_id_def set_issuer_def)
    moreover have "client_id x \<noteq> []" using id by (simp add: x_def)
    moreover have "st_secret_name (Status x) = secret_name x" using d(8) by (simp add: x_def)
    ultimately show ?thesis using o(3) by (simp add: ready_object_def)
  qed
  have cid: "client_id x = fk_client_id x0" using id(1) by (simp add: x_def)
  have "\<not> drifted x (seen (blank_secret x0))"
    using utf8 by (simp add: d(11) drifted_def seen_def blank_secret_def x0_def registered_as_def registration_of_def)
  then have "backed R (e_emit (world_env base) ev w2) x" for ev
    using u cid d f(2) by (auto simp: backed_def s1_def update_conv')
  moreover have "w_objects (e_emit (world_env base) ev w2) = w_objects w"
    "\<forall>i. i \<noteq> client_id x \<longrightarrow> gm_get (fs_clients (w_tsidp (e_emit (world_env base) ev w2))) i
       = gm_get (fs_clients (w_tsidp w)) i" for ev
    using u(3,4) cid al by (auto simp: s1_def update_conv')
  ultimately show ?thesis using run same ready by metis
qed

text \<open>Adding the finalizer first.\<close>

lemma finalizer_written:
  assumes R: "library_laws R" and w: "w_objects w (key_of oc) = Some oc" and a: "spec_admitted (Spec oc)"
    and d: "oc_deletion_timestamp oc = None"
  shows "\<exists>oc1. api_update (with_finalizer R oc) w = (Inr oc1, store_object oc1 w)
    \<and> oc_name oc1 = oc_name oc \<and> oc_namespace oc1 = oc_namespace oc \<and> oc_uid oc1 = oc_uid oc \<and> Spec oc1 = Spec oc
    \<and> Status oc1 = Status oc \<and> oc_deletion_timestamp oc1 = None \<and> FinalizerName \<in> set (oc_finalizers oc1)"
  using w a d library_lawsD(2) [OF R]
  by (simp add: api_update_def with_finalizer_def Let_def)

text \<open>The registering pass of a stored object that has the finalizer, with the status write that ends it.\<close>

lemma registering_written:
  assumes R: "library_laws R" and w: "w_objects w (key_of oc) = Some oc"
    and o: "sound_spec oc" "oc_deletion_timestamp oc = None" "FinalizerName \<in> set (oc_finalizers oc)"
      "client_id oc = []" "st_secret_name (Status oc) = []"
    and q: "w_secrets w (oc_namespace oc, secret_name oc) = None" "tagged (world_clients w) (fingerprint oc) = {}"
      "fs_clients (w_tsidp w) \<noteq> None" "fs_issuer (w_tsidp w) \<noteq> []"
  obtains x y w1 w2 t where "run (world_env base) (reconcile_normal R oc) w = ((x, requeue (ResyncInterval R), None), w1, t)"
    and "e_update_status (world_env base) (observe_generation x) w1 = (Inr y, w2)"
    and "in_sync R (oc_namespace oc) (oc_name oc) w2" and "w_objects w2 (key_of oc) = Some y"
    and "\<forall>j. j \<noteq> client_id y \<longrightarrow> gm_get (fs_clients (w_tsidp w2)) j = gm_get (fs_clients (w_tsidp w)) j"
proof -
  obtain x w1 t where x: "run (world_env base) (reconcile_normal R oc) w = ((x, requeue (ResyncInterval R), None), w1, t)"
    "same_object oc x" "ready_object x" "backed R w1 x" "w_objects w1 = w_objects w"
    "\<forall>i. i \<noteq> client_id x \<longrightarrow> gm_get (fs_clients (w_tsidp w1)) i = gm_get (fs_clients (w_tsidp w)) i"
    using registering_world [OF R o q, of base] by metis
  have "w_objects w1 (key_of oc) = Some oc" using x(5) w by simp
  from in_sync_written [OF this x(2-4)] obtain y where
    y: "api_update_status (observe_generation x) w1 = (Inr y, store_object y w1)"
    "in_sync R (oc_namespace oc) (oc_name oc) (store_object y w1)"
    "w_objects (store_object y w1) (key_of oc) = Some y" "client_id y = client_id x"
    by blast
  show thesis by (rule that [OF x(1) _ y(2,3)]) (use y(1,4) x(6) in simp_all)
qed

lemma first_reconcile:
  assumes R: "library_laws R" and "unregistered ns n w"
  shows "\<exists>w' t oc. run (world_env base) (reconcile R ns n) w = ((requeue (ResyncInterval R), None), w', t)
    \<and> in_sync R ns n w' \<and> w_objects w' (ns, n) = Some oc
    \<and> (\<forall>j. j \<noteq> client_id oc \<longrightarrow> gm_get (fs_clients (w_tsidp w')) j = gm_get (fs_clients (w_tsidp w)) j)"
proof -
  obtain oc where oc: "w_objects w (ns, n) = Some oc" "key_of oc = (ns, n)" "oc_deletion_timestamp oc = None"
    "sound_spec oc" "client_id oc = []" "st_secret_name (Status oc) = []" "w_secrets w (ns, secret_name oc) = None"
    "tagged (world_clients w) (fingerprint oc) = {}" "fs_clients (w_tsidp w) \<noteq> None" "fs_issuer (w_tsidp w) \<noteq> []"
    using assms(2) unfolding unregistered_def by blast
  have k: "oc_namespace oc = ns" "oc_name oc = n" using oc(2) by simp_all
  have get: "e_get_oidc (world_env base) ns n w = (Inr oc, w)" using oc(1) by (simp add: api_get_def)
  show ?thesis
  proof (cases "FinalizerName \<in> set (oc_finalizers oc)")
    case True
    have w: "w_objects w (key_of oc) = Some oc" "w_secrets w (oc_namespace oc, secret_name oc) = None"
      using oc(1,2,7) by auto
    obtain x y w1 w2 t where r:
      "run (world_env base) (reconcile_normal R oc) w = ((x, requeue (ResyncInterval R), None), w1, t)"
      "e_update_status (world_env base) (observe_generation x) w1 = (Inr y, w2)" "in_sync R ns n w2"
      "w_objects w2 (ns, n) = Some y"
      "\<forall>j. j \<noteq> client_id y \<longrightarrow> gm_get (fs_clients (w_tsidp w2)) j = gm_get (fs_clients (w_tsidp w)) j"
      by (rule registering_written [OF R w(1) oc(4,3) True oc(5,6) w(2) oc(8-10), of base]) (unfold k oc(2), assumption)
    have "contains_finalizer R (oc_finalizers oc) FinalizerName" using True library_lawsD(1) [OF R] by blast
    from live_run [OF get oc(3) this r(1,2)] r(3-5) show ?thesis by blast
  next
    case False
    obtain oc1 where o1: "api_update (with_finalizer R oc) w = (Inr oc1, store_object oc1 w)"
      "oc_name oc1 = oc_name oc" "oc_namespace oc1 = oc_namespace oc" "oc_uid oc1 = oc_uid oc" "Spec oc1 = Spec oc"
      "Status oc1 = Status oc" "oc_deletion_timestamp oc1 = None" "FinalizerName \<in> set (oc_finalizers oc1)"
      using finalizer_written [OF R, of w oc] oc(1-4) by (auto simp: sound_spec_def)
    note c = identity_cong [OF o1(2-5)]
    let ?w1 = "store_object oc1 w"
    have k1: "key_of oc1 = (ns, n)" "oc_namespace oc1 = ns" "oc_name oc1 = n" using k o1(2,3) by simp_all
    have w: "w_objects ?w1 (key_of oc1) = Some oc1" "w_secrets ?w1 (oc_namespace oc1, secret_name oc1) = None"
      "tagged (world_clients ?w1) (fingerprint oc1) = {}" "fs_clients (w_tsidp ?w1) \<noteq> None" "fs_issuer (w_tsidp ?w1) \<noteq> []"
      using oc(7-10) c k1(2) by (simp_all add: store_object_def world_clients_def)
    have sx: "sound_spec oc1" "client_id oc1 = []" "st_secret_name (Status oc1) = []" using oc(4-6) c o1(6) by simp_all
    obtain x y w1 w2 t where r:
      "run (world_env base) (reconcile_normal R oc1) ?w1 = ((x, requeue (ResyncInterval R), None), w1, t)"
      "e_update_status (world_env base) (observe_generation x) w1 = (Inr y, w2)" "in_sync R ns n w2"
      "w_objects w2 (ns, n) = Some y"
      "\<forall>j. j \<noteq> client_id y \<longrightarrow> gm_get (fs_clients (w_tsidp w2)) j = gm_get (fs_clients (w_tsidp ?w1)) j"
      by (rule registering_written [OF R w(1) sx(1) o1(7,8) sx(2,3) w(2-5), of base]) (unfold k1, assumption)
    have "\<not> contains_finalizer R (oc_finalizers oc) FinalizerName" using False library_lawsD(1) [OF R] by blast
    moreover have "e_update_oidc (world_env base) (with_finalizer R oc) w = (Inr oc1, ?w1)" using o1(1) by simp
    ultimately show ?thesis using first_live_run [OF get oc(3) _ _ r(1,2)] r(3-5) by fastforce
  qed
qed


section \<open>Every further reconcile\<close>

lemma in_sync_pass:
  assumes R: "library_laws R" and "in_sync R ns n w"
  shows "\<exists>w' t. run (world_env base) (reconcile R ns n) w = ((requeue (ResyncInterval R), None), w', t)
    \<and> in_sync R ns n w' \<and> w_tsidp w' = w_tsidp w"
proof -
  obtain oc where oc: "w_objects w (ns, n) = Some oc" "key_of oc = (ns, n)" "ready_object oc" "backed R w oc"
    using assms(2) unfolding in_sync_def by blast
  obtain sec x where b: "w_secrets w (oc_namespace oc, secret_name oc) = Some sec" "s_created sec" "owned_by R oc sec"
    "secret_selected sec" "holds_credentials sec (client_id oc)"
    "gm_get (fs_clients (w_tsidp w)) (client_id oc) = Some x" "\<not> drifted oc (seen (blank_secret x))"
    "fs_issuer (w_tsidp w) \<noteq> []"
    using oc(4) unfolding backed_def by blast
  have o: "oc_deletion_timestamp oc = None" "sound_spec oc" "client_id oc \<noteq> []" "st_secret_name (Status oc) = secret_name oc"
    and fin: "contains_finalizer R (oc_finalizers oc) FinalizerName"
    using oc(3) library_lawsD(1) [OF R] by (simp_all add: ready_object_def)
  let ?disc = "metadata_of (w_tsidp w)"
  let ?oc = "set_issuer (pm_issuer ?disc) oc"
  have tw: "template_wf (SecretTemplate (Spec ?oc))" using o(2) by (simp add: sound_spec_def)
  obtain sec' w1 where u: "api_upsert_secret (oc_namespace oc) (secret_name oc)
      (upsert_mutate R ?oc (\<lambda>s. set_secret_metadata s ?disc (RedirectURIs (Spec oc)))) w = (None, w1)"
    "w_secrets w1 (oc_namespace oc, secret_name oc) = Some sec'" "w_objects w1 = w_objects w" "w_tsidp w1 = w_tsidp w"
    "s_created sec'" "owned_by R oc sec'" "secret_selected sec'" "\<forall>i. holds_credentials sec' i = holds_credentials sec i"
    using upsert_found [OF R tw b(1,2) _ b(4), of ?disc "RedirectURIs (Spec oc)"] b(3) by auto
  define y where "y = mark_ready R ?oc"
  have same: "same_object oc y"
    by (simp add: y_def mark_ready_def same_object_def set_cond_def set_status_secret_def set_issuer_def)
  note d = same_objectD [OF same]
  have run: "\<exists>t. run (world_env base) (reconcile_normal R oc) w = ((y, requeue (ResyncInterval R), None), w1, t)"
    using steady_pass [of oc "world_env base" w ?disc w "seen (blank_secret x)" w sec w _ R w1, OF _ o(3) _ _ _ b(7) _ b(5) refl]
      o(2,4) world_calls(2) [OF b(8)] world_calls(3) [OF o(3)] b(1,6) u(1)
    by (auto simp: sound_spec_def y_def api_read_secret_def)
  have "ready_object y"
  proof -
    have "ready_status (st_conditions (Status y)) = Some ''True''"
      using library_lawsD(4) [OF R] by (simp add: y_def mark_ready_def set_cond_def)
    moreover have "sound_spec y" using o(2) identity_cong(6) [of y oc] d(1-4) by simp
    moreover have "oc_deletion_timestamp y = None" "oc_finalizers y = oc_finalizers oc"
      using o(1) by (simp_all add: y_def mark_ready_def set_cond_def set_status_secret_def set_issuer_def)
    ultimately show ?thesis using oc(3) d(8) by (simp add: ready_object_def y_def)
  qed
  moreover have "client_id y = client_id oc" by (simp add: y_def)
  then have "backed R w1 y" using u b d by (auto simp: backed_def)
  moreover have "w_objects w1 (key_of oc) = Some oc" using u(3) oc(1,2) by simp
  ultimately obtain z where z: "api_update_status (observe_generation y) w1 = (Inr z, store_object z w1)"
    "in_sync R ns n (store_object z w1)"
    using in_sync_written [OF _ same] oc(2) by blast
  have get: "e_get_oidc (world_env base) ns n w = (Inr oc, w)" using oc(1) by (simp add: api_get_def)
  obtain t where t: "run (world_env base) (reconcile_normal R oc) w = ((y, requeue (ResyncInterval R), None), w1, t)"
    using run by blast
  have "e_update_status (world_env base) (observe_generation y) w1 = (Inr z, store_object z w1)" using z(1) by simp
  from live_run [OF get o(1) fin t this] z(2) u(4) show ?thesis by auto
qed

text \<open>Reconciles of one object, one after the other, with nothing in between.\<close>

definition reconciles_to :: "string \<Rightarrow> reconciler \<Rightarrow> string \<Rightarrow> string \<Rightarrow> world \<Rightarrow> world \<Rightarrow> bool" where
  "reconciles_to base R ns n w w' \<longleftrightarrow> (\<exists>a t. run (world_env base) (reconcile R ns n) w = (a, w', t))"

text \<open>
  C5: The converged state is stable: after any number of reconciles of an object in sync, it is still in
  sync, tsidp is exactly as it was, and the next reconcile again ends without error, asking for nothing
  but the next resync.
\<close>

theorem in_sync_stable:
  assumes "library_laws R" and "in_sync R ns n w" and "(reconciles_to base R ns n)\<^sup>*\<^sup>* w w'"
  shows "in_sync R ns n w' \<and> w_tsidp w' = w_tsidp w
    \<and> (\<exists>w'' t. run (world_env base) (reconcile R ns n) w' = ((requeue (ResyncInterval R), None), w'', t))"
proof -
  have "in_sync R ns n w' \<and> w_tsidp w' = w_tsidp w"
    using assms(3)
  proof induction
    case (step v v')
    then show ?case using in_sync_pass [OF assms(1), of ns n v base] by (auto simp: reconciles_to_def)
  qed (use assms(2) in simp)
  then show ?thesis using in_sync_pass [OF assms(1)] by blast
qed

section \<open>Deletion\<close>

lemma sweep_run:
  assumes "\<forall>fc \<in> set l. fc_client_id fc \<noteq> []"
  shows "\<exists>w' t. run (world_env base) (delete_fingerprinted R oc l) w = (None, w', t) \<and> w_objects w' = w_objects w
    \<and> (\<forall>k. gm_get (fs_clients (w_tsidp w')) k
          = (if \<exists>fc \<in> set l. fc_client_id fc = k \<and> contains (fc_client_name fc) (fingerprint oc)
             then None else gm_get (fs_clients (w_tsidp w)) k))"
  using assms
proof (induction l arbitrary: w)
  case (Cons fc l)
  show ?case
  proof (cases "contains (fc_client_name fc) (fingerprint oc)")
    case False
    then show ?thesis using Cons by auto
  next
    case True
    have i: "fc_client_id fc \<noteq> []" using Cons.prems by simp
    obtain d w1 where d: "e_delete_client (world_env base) (fc_client_id fc) w = (d, w1)" "delete_failure d = None"
      "w_objects w1 = w_objects w" "\<And>k. gm_get (fs_clients (w_tsidp w1)) k
        = (if k = fc_client_id fc then None else gm_get (fs_clients (w_tsidp w)) k)"
      using world_calls(4) [OF i, of base w] by (auto simp: delete_failure_def split: option.splits)
    define ev where "ev = normal ''Deregistered'' (Sprintf
      ''deleted unrecorded fingerprinted client %s during finalization'' [MStr (fc_client_id fc)])"
    define w2 where "w2 = e_emit (world_env base) ev w1"
    have w2: "w_objects w2 = w_objects w" "w_tsidp w2 = w_tsidp w1" by (simp_all add: w2_def d(3))
    have "\<forall>fc \<in> set l. fc_client_id fc \<noteq> []" using Cons.prems by simp
    from Cons.IH [OF this, of w2] obtain w3 t where
      r: "run (world_env base) (delete_fingerprinted R oc l) w2 = (None, w3, t)" "w_objects w3 = w_objects w"
      "\<And>k. gm_get (fs_clients (w_tsidp w3)) k
          = (if \<exists>fc \<in> set l. fc_client_id fc = k \<and> contains (fc_client_name fc) (fingerprint oc)
             then None else gm_get (fs_clients (w_tsidp w1)) k)"
      unfolding w2 by blast
    have "run (world_env base) (delete_fingerprinted R oc (fc # l)) w = (None, w3, CDeleteClient (fc_client_id fc) d # CEmit ev # t)"
      using True d(1,2) r(1) by (simp add: log_call_def ev_def w2_def)
    then show ?thesis using r(2,3) True by (auto simp: d(4))
  qed
qed simp

lemma deregister_run:
  assumes f: "server_fresh (w_tsidp w)"
  shows "\<exists>w' t. run (world_env base) (deregister R oc) w = (None, w', t) \<and> w_objects w' = w_objects w
    \<and> (must_deregister oc \<longrightarrow> client_id oc \<noteq> [] \<longrightarrow> gm_get (fs_clients (w_tsidp w')) (client_id oc) = None)
    \<and> (must_deregister oc \<longrightarrow> client_id oc = [] \<longrightarrow> (\<forall>k x. gm_get (fs_clients (w_tsidp w')) k = Some x \<longrightarrow>
          \<not> contains (utf8 (fk_client_name x)) (fingerprint oc)))"
proof -
  consider "\<not> must_deregister oc" | "must_deregister oc" "client_id oc \<noteq> []" | "must_deregister oc" "client_id oc = []"
    by blast
  then show ?thesis
  proof cases
    case 1
    then show ?thesis by (auto simp: deregister_def must_deregister_def forced_def)
  next
    case 2
    then show ?thesis
      using world_calls(4) [OF 2(2), of base w]
      by (auto simp: deregister_def must_deregister_def forced_def delete_failure_def log_call_def split: option.splits)
  next
    case 3
    obtain al where al: "fs_clients (w_tsidp w) = Some al" "distinct (map fst al)"
      "\<And>k x. map_of al k = Some x \<Longrightarrow> entry_ok (fs_next_id (w_tsidp w)) k x"
      by (rule server_freshE [OF f]) blast
    let ?l = "map (\<lambda>(k, x). seen (blank_secret x)) (gm_entries (fs_clients (w_tsidp w)))"
    have id: "fc_client_id (seen (blank_secret x)) = k \<and> k \<noteq> []" if "map_of al k = Some x" for k x
      using entry_okD [OF al(3) [OF that]] by (simp add: seen_def blank_secret_def)
    have mem: "map_of al k = Some x" if "(k, x) \<in> set al" for k x using that al(2) by simp
    have "\<forall>fc \<in> set ?l. fc_client_id fc \<noteq> []"
      using id mem by (fastforce simp: al(1) gm_entries_def)
    from sweep_run [OF this, of base R oc w] obtain w' t where r: "run (world_env base) (delete_fingerprinted R oc ?l) w = (None, w', t)"
      "w_objects w' = w_objects w" "\<And>k. gm_get (fs_clients (w_tsidp w')) k
          = (if \<exists>fc \<in> set ?l. fc_client_id fc = k \<and> contains (fc_client_name fc) (fingerprint oc)
             then None else gm_get (fs_clients (w_tsidp w)) k)"
      by blast
    have "\<not> contains (utf8 (fk_client_name x)) (fingerprint oc)"
      if x: "gm_get (fs_clients (w_tsidp w')) k = Some x" for k x
    proof
      assume c: "contains (utf8 (fk_client_name x)) (fingerprint oc)"
      have m: "map_of al k = Some x" using x r(3) [of k] al(1) by (auto split: if_splits)
      then have "seen (blank_secret x) \<in> set ?l" using map_of_SomeD [OF m] by (force simp: al(1) gm_entries_def)
      moreover have "fc_client_id (seen (blank_secret x)) = k" using id [OF m] by blast
      moreover have "contains (fc_client_name (seen (blank_secret x))) (fingerprint oc)"
        using c by (simp add: seen_def blank_secret_def)
      ultimately show False using x r(3) [of k] by (auto split: if_splits)
    qed
    then show ?thesis
      using 3 r(1,2) by (auto simp: deregister_def must_deregister_def forced_def log_call_def
          world_calls(1) [unfolded world_env_simps])
  qed
qed

text \<open>
  C4: Deletion completes: one reconcile of a deleted object that holds only the operator's finalizer lets the object
  go; and unless a waiver applies, the recorded client is gone from tsidp, or, when none is recorded, every
  registration with the object's fingerprint.
\<close>

theorem deletion_completes:
  assumes "library_laws R" and "w_objects w (ns, n) = Some oc" and "key_of oc = (ns, n)"
    and "oc_deletion_timestamp oc \<noteq> None" and "set (oc_finalizers oc) = {FinalizerName}"
    and "spec_admitted (Spec oc)" and "server_fresh (w_tsidp w)"
  shows "\<exists>w' t. run (world_env base) (reconcile R ns n) w = ((requeue 0, None), w', t) \<and> w_objects w' (ns, n) = None
    \<and> (must_deregister oc \<longrightarrow> client_id oc \<noteq> [] \<longrightarrow> gm_get (fs_clients (w_tsidp w')) (client_id oc) = None)
    \<and> (must_deregister oc \<longrightarrow> client_id oc = [] \<longrightarrow> (\<forall>k x. gm_get (fs_clients (w_tsidp w')) k = Some x \<longrightarrow>
          \<not> contains (utf8 (fk_client_name x)) (fingerprint oc)))"
proof -
  obtain w1 t where r: "run (world_env base) (deregister R oc) w = (None, w1, t)" "w_objects w1 = w_objects w"
    "must_deregister oc \<longrightarrow> client_id oc \<noteq> [] \<longrightarrow> gm_get (fs_clients (w_tsidp w1)) (client_id oc) = None"
    "must_deregister oc \<longrightarrow> client_id oc = [] \<longrightarrow> (\<forall>k x. gm_get (fs_clients (w_tsidp w1)) k = Some x \<longrightarrow>
          \<not> contains (utf8 (fk_client_name x)) (fingerprint oc))"
    using deregister_run [OF assms(7)] by meson
  have "set (remove_finalizer R (oc_finalizers oc) FinalizerName) = {}"
    using assms(5) by (simp add: library_lawsD(3) [OF assms(1)])
  then have "remove_finalizer R (oc_finalizers oc) FinalizerName = []" by simp
  then obtain y where u: "api_update (without_finalizer R oc) w1 = (Inr y, drop_object (ns, n) w1)"
    using assms(2-4,6) r(2) by (auto simp: api_update_def without_finalizer_def Let_def)
  have fin: "contains_finalizer R (oc_finalizers oc) FinalizerName"
    using assms(5) library_lawsD(1) [OF assms(1)] by blast
  have "run (world_env base) (reconcile R ns n) w = ((requeue 0, None), drop_object (ns, n) w1,
      CGetOIDC ns n (Inr oc) # t @ [CUpdateOIDC (without_finalizer R oc) (Inr y)])"
    using assms(2,4) fin r(1) u
    by (simp add: reconcile_def reconcile_delete_def api_get_def run_bind log_call_def without_finalizer_def)
  then show ?thesis using r(3,4) by simp
qed

end
