(* ===== verification/Interference.thy ===== *)
theory Interference
  imports Cluster
begin

text \<open>
  Interference between calls. \<open>disturbed\<close> turns an environment into one in which other actors may act
  after every single call, as a schedule says: users edit, delete and create objects and Secrets and tsidp
  loses clients while a reconcile is under way. The laws of \<open>cluster\<close> survive this, so everything
  proved from them holds under any interleaving of a reconcile with the other actors.
\<close>

section \<open>An environment with a schedule\<close>

definition busy :: "(nat \<Rightarrow> 'w \<Rightarrow> 'w) \<Rightarrow> nat \<Rightarrow> 'r \<times> 'w \<Rightarrow> 'r \<times> 'w \<times> nat" where
  "busy sched k = (\<lambda>(r, w). (r, sched k w, Suc k))"

definition disturbed :: "(nat \<Rightarrow> 'w \<Rightarrow> 'w) \<Rightarrow> 'w env \<Rightarrow> ('w \<times> nat) env" where
  "disturbed sched E =
     \<lparr>e_get_oidc = (\<lambda>ns n (w, k). busy sched k (e_get_oidc E ns n w)),
      e_update_oidc = (\<lambda>x (w, k). busy sched k (e_update_oidc E x w)),
      e_update_status = (\<lambda>x (w, k). busy sched k (e_update_status E x w)),
      e_read_secret = (\<lambda>ns n (w, k). busy sched k (e_read_secret E ns n w)),
      e_delete_secret = (\<lambda>s u (w, k). busy sched k (e_delete_secret E s u w)),
      e_upsert_secret = (\<lambda>ns n m (w, k). busy sched k (e_upsert_secret E ns n m w)),
      e_emit = (\<lambda>ev (w, k). (sched k (e_emit E ev w), Suc k)),
      e_discovery = (\<lambda>(w, k). busy sched k (e_discovery E w)),
      e_list_clients = (\<lambda>(w, k). busy sched k (e_list_clients E w)),
      e_register = (\<lambda>q (w, k). busy sched k (e_register E q w)),
      e_get_client = (\<lambda>i (w, k). busy sched k (e_get_client E i w)),
      e_delete_client = (\<lambda>i (w, k). busy sched k (e_delete_client E i w)),
      e_update_client = (\<lambda>i n us (w, k). busy sched k (e_update_client E i n us w))\<rparr>"

lemma disturbed_answered:
  "answered (disturbed sched E) c (w, k) s \<longleftrightarrow> (\<exists>v. answered E c w v \<and> s = (sched k v, Suc k))"
  by (cases c) (auto simp: disturbed_def busy_def split: prod.splits)

lemma same_registration_trans:
  "same_registration x y \<Longrightarrow> same_registration y z \<Longrightarrow> same_registration x z"
  by (simp add: same_registration_def)

section \<open>The laws survive\<close>

context cluster
begin

text \<open>What the other actors do at one point of the schedule.\<close>

definition lawful :: "(nat \<Rightarrow> 'w \<Rightarrow> 'w) \<Rightarrow> bool" where
  "lawful sched \<longleftrightarrow> (\<forall>k w. sched k w = w \<or> outside w (sched k w))"

lemma lawfulE:
  assumes "lawful sched"
  obtains "sched k w = w" | "outside w (sched k w)"
  using assms unfolding lawful_def by blast

lemma schedule_objects:
  assumes l: "lawful sched" and g: "good v" and y: "stored (sched k v) ns n = Some y"
  shows "client_id y = [] \<or> (\<exists>x. stored v ns n = Some x \<and> same_registration x y)"
  by (rule lawfulE [OF l, of k v]) (use outside_objects [OF g _ y] y in \<open>auto simp: same_registration_def\<close>)

text \<open>A call under interference is a call, followed by a step that only takes registrations away.\<close>

lemma disturbed_callE:
  assumes l: "lawful sched" and "good (fst s)" and "answered (disturbed sched E) c s s'"
  obtains w k v where "s = (w, k)" and "s' = (sched k v, Suc k)" and "good w" and "answered E c w v"
    and "good v" and "good (sched k v)"
    and "\<And>f. tag f \<Longrightarrow> tagged (clients (sched k v)) f \<subseteq> tagged (clients v) f"
proof -
  obtain w k v where v: "s = (w, k)" "answered E c w v" "s' = (sched k v, Suc k)"
    using assms(3) by (cases s) (auto simp only: disturbed_answered)
  have g: "good w" using assms(2) v(1) by simp
  then have h: "good v" by (rule good_kept [OF _ v(2)])
  have "good (sched k v)" by (rule lawfulE [OF l, of k v]) (use h outside_good in auto)
  moreover have "tagged (clients (sched k v)) f \<subseteq> tagged (clients v) f" if "tag f" for f
    by (rule lawfulE [OF l, of k v]) (use outside_clients [OF h _ that] in auto)
  ultimately show thesis by (rule that [OF v(1,3) g v(2) h])
qed

lemma disturbed_tagged:
  assumes l: "lawful sched" and g: "good (fst s)" and a: "answered (disturbed sched E) c s s'" and t: "tag f"
    and law: "\<And>w v. good w \<Longrightarrow> answered E c w v \<Longrightarrow> tagged (clients v) f \<subseteq> tagged (clients w) f \<union> A"
  shows "tagged (clients (fst s')) f \<subseteq> tagged (clients (fst s)) f \<union> A"
proof (rule disturbed_callE [OF l g a])
  fix w k v
  assume v: "s = (w, k)" "s' = (sched k v, Suc k)" "good w" "answered E c w v"
    and less: "\<And>f. tag f \<Longrightarrow> tagged (clients (sched k v)) f \<subseteq> tagged (clients v) f"
  show ?thesis using subset_trans [OF less [OF t] law [OF v(3,4)]] v(1,2) by simp
qed

lemma disturbed_objects:
  assumes l: "lawful sched" and g: "good (fst s)" and a: "answered (disturbed sched E) c s s'"
    and y: "stored (fst s') ns n = Some y"
  shows "client_id y = [] \<or> (\<exists>x. stored (fst s) ns n = Some x \<and> same_registration x y)
    \<or> (\<exists>x r. c = CUpdateStatus x r \<and> same_registration x y)"
proof -
  obtain w k v where v: "s = (w, k)" "s' = (sched k v, Suc k)" "good w" "answered E c w v" "good v"
    by (rule disturbed_callE [OF l g a]) blast
  consider "client_id y = []" | x where "stored v ns n = Some x" "same_registration x y"
    using schedule_objects [OF l v(5), of k ns n y] y v(2) by auto
  then show ?thesis
  proof cases
    case (2 x)
    consider "client_id x = []" | z where "stored w ns n = Some z" "same_registration z x"
      | z r where "c = CUpdateStatus z r" "same_registration z x"
      using objects [OF v(3,4) 2(1)] by blast
    then show ?thesis
    proof cases
      case 1
      then show ?thesis using 2(2) by (simp add: same_registration_def)
    qed (use same_registration_trans [OF _ 2(2)] v(1) in auto)
  qed simp
qed

lemma disturbed_registered:
  assumes l: "lawful sched" and g: "good (fst s)" and a: "answered (disturbed sched E) (CRegister q r) s s'"
  shows "\<exists>j. (\<forall>f. tag f \<longrightarrow> tagged (clients (fst s')) f
             \<subseteq> tagged (clients (fst s)) f \<union> (if contains (rr_client_name q) f then {j} else {}))
      \<and> (\<forall>fc. r = Inr fc \<longrightarrow> fc_client_id fc = j)"
proof -
  obtain w k v where v: "s = (w, k)" "s' = (sched k v, Suc k)" "good w" "answered E (CRegister q r) w v"
    and less: "\<And>f. tag f \<Longrightarrow> tagged (clients (sched k v)) f \<subseteq> tagged (clients v) f"
    by (rule disturbed_callE [OF l g a]) blast
  obtain j where j: "\<forall>f. tag f \<longrightarrow> tagged (clients v) f
             \<subseteq> tagged (clients w) f \<union> (if contains (rr_client_name q) f then {j} else {})"
      "\<forall>fc. r = Inr fc \<longrightarrow> fc_client_id fc = j"
    using clients_registered [OF v(3,4)] by blast
  have "tagged (clients (fst s')) f \<subseteq> tagged (clients (fst s)) f \<union> (if contains (rr_client_name q) f then {j} else {})"
    if "tag f" for f
    using subset_trans [OF less [OF that]] j(1) that v(1,2) by simp
  then show ?thesis using j(2) by blast
qed

lemma disturbed_cluster:
  assumes l: "lawful sched"
  shows "cluster (disturbed sched E) (\<lambda>s. clients (fst s)) (\<lambda>s. stored (fst s)) (\<lambda>s. good (fst s))
    (\<lambda>s s'. outside (fst s) (fst s'))"
proof
  fix s s' and c
  assume "good (fst s)" and "answered (disturbed sched E) c s s'"
  then show "good (fst s')" by (rule disturbed_callE [OF l]) simp
next
  fix s s' and ns n oc
  assume "good (fst s)" and "answered (disturbed sched E) (CGetOIDC ns n (Inr oc)) s s'"
  then show "stored (fst s) ns n = Some oc" by (rule disturbed_callE [OF l]) (use object_read in simp)
next
  fix s s' and x y
  assume "good (fst s)" and "answered (disturbed sched E) (CUpdateOIDC x (Inr y)) s s'"
  then show "well_named y \<and> (\<exists>z. stored (fst s) (oc_namespace x) (oc_name x) = Some z \<and> same_registration z y)"
    by (rule disturbed_callE [OF l]) (use object_written in simp)
next
  fix s s' and c f
  assume g: "good (fst s)" and a: "answered (disturbed sched E) c s s'" and t: "tag f"
    and c: "\<And>q r. c \<noteq> CRegister q r" "\<And>i m us r. c \<noteq> CUpdateClient i m us r"
  have "tagged (clients (fst s')) f \<subseteq> tagged (clients (fst s)) f \<union> {}"
    using clients_kept [OF _ _ t c] by (intro disturbed_tagged [OF l g a t]) auto
  then show "tagged (clients (fst s')) f \<subseteq> tagged (clients (fst s)) f" by simp
next
  fix s s' and i m us u f
  assume g: "good (fst s)" and a: "answered (disturbed sched E) (CUpdateClient i m us u) s s'" and t: "tag f"
  show "tagged (clients (fst s')) f \<subseteq> tagged (clients (fst s)) f \<union> (if contains (trim_space m) f then {i} else {})"
    by (rule disturbed_tagged [OF l g a t clients_updated [OF _ _ t]])
next
  fix s s' and l' f
  assume g: "good (fst s)" and a: "answered (disturbed sched E) (CListClients (Inr l')) s s'" and t: "tag f"
  show "(\<forall>fc \<in> set l'. contains (fc_client_name fc) f \<longrightarrow> fc_client_id fc \<in> tagged (clients (fst s)) f)
      \<and> (\<forall>i \<in> tagged (clients (fst s')) f. \<exists>fc \<in> set l'. fc_client_id fc = i \<and> contains (fc_client_name fc) f)"
  proof (rule disturbed_callE [OF l g a])
    fix w k v
    assume v: "s = (w, k)" "s' = (sched k v, Suc k)" "good w" "answered E (CListClients (Inr l')) w v"
      and less: "\<And>f. tag f \<Longrightarrow> tagged (clients (sched k v)) f \<subseteq> tagged (clients v) f"
    show ?thesis using clients_listed [OF v(3,4) t] less [OF t] v(1,2) by auto
  qed
next
  fix s s' and i d f
  assume g: "good (fst s)" and a: "answered (disturbed sched E) (CDeleteClient i d) s s'"
    and d: "delete_failure d = None" and t: "tag f"
  show "i \<notin> tagged (clients (fst s')) f"
  proof (rule disturbed_callE [OF l g a])
    fix w k v
    assume v: "s' = (sched k v, Suc k)" "good w" "answered E (CDeleteClient i d) w v"
      and less: "\<And>f. tag f \<Longrightarrow> tagged (clients (sched k v)) f \<subseteq> tagged (clients v) f"
    show ?thesis using client_deleted [OF v(2,3) d t] less [OF t] v(1) by auto
  qed
qed (rule identity outside_good outside_clients outside_objects disturbed_objects [OF l] disturbed_registered [OF l]; assumption)+

end

section \<open>The closed world under interference\<close>

text \<open>A schedule of the other actors of \<open>Cluster\<close>: what is no step of theirs is no step.\<close>

definition obedient :: "(nat \<Rightarrow> world \<Rightarrow> world) \<Rightarrow> nat \<Rightarrow> world \<Rightarrow> world" where
  "obedient sched k w = (if others w (sched k w) then sched k w else w)"

definition busy_env :: "string \<Rightarrow> (nat \<Rightarrow> world \<Rightarrow> world) \<Rightarrow> (world \<times> nat) env" where
  "busy_env base sched = disturbed (obedient sched) (world_env base)"

interpretation busy_world: cluster "busy_env base sched" "\<lambda>s. world_clients (fst s)" "\<lambda>s. world_objects (fst s)"
    "\<lambda>s. world_ok (fst s)" "\<lambda>s s'. others (fst s) (fst s')"
  for base :: string and sched :: "nat \<Rightarrow> world \<Rightarrow> world"
  unfolding busy_env_def by (rule world.disturbed_cluster) (simp add: world.lawful_def obedient_def)

end
