(* ===== verification/ClientProperties.thy ===== *)
theory ClientProperties
  imports Registry Examples Manager
begin

text \<open>
  The properties of the HTTP client: against any server, what its errors and results mean; against
  the server of fake.go, that it implements the abstract registry, that an update reports the
  truth although the server answers 200 to a refused edit, and that secrets are shown once.
\<close>

section \<open>Against any server\<close>

text \<open>
  C13: In-place updates settle: when \<open>UpdateClient\<close> with the name and URIs of an admitted spec
  without space runes returns no error, the client it has just read back is not drifted, so the next
  pass finds nothing to update. The trimming on the way changes neither the registered name nor the URIs.
\<close>

theorem in_place_update_settles:
  assumes "plain_metadata oc" and "spec_admitted (Spec oc)"
    and "find bad_uri (RedirectURIs (Spec oc)) = None"
    and "update_client http c i (registered_name oc) (RedirectURIs (Spec oc)) w = (None, w')"
  shows "\<exists>got w1. get_client http c i w1 = (Inr got, w') \<and> \<not> drifted oc got"
proof -
  have "\<not> is_space r" if "u \<in> set (RedirectURIs (Spec oc))" "r \<in> set (runes u)" for u r
    using assms(3) that by (auto simp: find_None_iff bad_uri_def list_ex_iff)
  moreover have "u \<noteq> []" if "u \<in> set (RedirectURIs (Spec oc))" for u
    using assms(2) that by (auto simp: spec_admitted_def uri_admitted_def list_all_iff)
  ultimately have "normalize_uris (RedirectURIs (Spec oc)) = RedirectURIs (Spec oc)"
    by (rule normalize_uris_id)
  then obtain w1 got where "get_client http c i w1 = (Inr got, w')" "fc_client_name got = registered_name oc"
    "mset (fc_redirect_uris got) = mset (RedirectURIs (Spec oc))"
    using update_client_verified [OF assms(4)] registered_name_trimmed [OF assms(1)] by metis
  then show ?thesis by (auto simp: drifted_def same_string_set_mset)
qed

text \<open>
  C24: \<open>ErrNotFound\<close> means 404 and nothing else: when transport errors are not \<open>ErrNotFound\<close>,
  \<open>GetClient\<close> and \<open>DeleteClient\<close> report it exactly when the server answered 404. Registrations are forgotten
  on this error only.
\<close>

theorem not_found_means_404:
  assumes "\<And>rq w e. fst (http rq w) = Inl e \<Longrightarrow> \<not> errors_is e ErrNotFound"
  shows "((\<exists>e. fst (get_client http c i w) = Inl e \<and> errors_is e ErrNotFound)
      \<longleftrightarrow> (\<exists>resp. fst (do_request http c ''GET'' (''/clients/'' @ path_escape i) [] [] w) = Inr resp \<and> rs_status resp = 404))
    \<and> ((\<exists>e. fst (delete_client http c i w) = Some e \<and> errors_is e ErrNotFound)
      \<longleftrightarrow> (\<exists>resp. fst (do_request http c ''DELETE'' (''/clients/'' @ path_escape i) [] [] w) = Inr resp \<and> rs_status resp = 404))"
proof -
  have e: "errors_is (err_from_response resp) ErrNotFound \<longleftrightarrow> rs_status resp = 404" for resp
    using err_from_response_other [of resp] err_from_response_not_found [of resp] by (cases "rs_status resp = 404") auto
  have d: "\<not> errors_is e ErrNotFound" if "decode_body dec b = Inl e" for dec :: "json \<Rightarrow> 'b \<times> bool" and b e
    using that by (auto simp: decode_body_def Let_def case_prod_beta split: option.splits if_splits)
  have t: "\<not> errors_is e ErrNotFound" if "do_request http c m p b ct w = (Inl e, w1)" for m p b ct w1 e
    using assms that by (metis do_request_def fst_conv)
  show ?thesis
    by (auto simp: get_client_def delete_client_def e dest: d t split: prod.splits sum.splits if_splits)
qed

text \<open>
  C36: Reading an error response is bounded: the error depends on the first 4096 bytes of the body
  only, however long it is, and the status it carries stays within 64 bits whatever the body says.
\<close>

theorem error_body_bounded:
  "err_from_response \<lparr>rs_status = st, rs_body = b\<rparr> = err_from_response \<lparr>rs_status = st, rs_body = take 4096 b\<rparr>
   \<and> (if - (2 ^ 63) \<le> st \<and> st < 2 ^ 63
      then (case err_from_response \<lparr>rs_status = st, rs_body = b\<rparr> of
          ApiError st' code desc \<Rightarrow> - (2 ^ 63) \<le> st' \<and> st' < 2 ^ 63
        | _ \<Rightarrow> st = 404)
      else True)"
proof (rule conjI)
  show "err_from_response \<lparr>rs_status = st, rs_body = b\<rparr> = err_from_response \<lparr>rs_status = st, rs_body = take 4096 b\<rparr>"
    by (simp add: err_from_response_def Let_def cong: option.case_cong)
  have int64: "- (2 ^ 63) \<le> i \<and> i < 2 ^ 63" if "int64_of t = Some i" for t i
    using that by (auto simp: int64_of_def Let_def split: if_splits)
  have store: "- (2 ^ 63) \<le> fst (fst (store_api_error k j ae)) \<and> fst (fst (store_api_error k j ae)) < 2 ^ 63"
    if "- (2 ^ 63) \<le> fst ae \<and> fst ae < 2 ^ 63" for k j ae
    using that int64 by (auto simp: store_api_error_def dec_int_def case_prod_beta Let_def split: json.splits option.splits)
  have members: "- (2 ^ 63) \<le> fst (fst (dec_members store_api_error ms (ae, e)))
      \<and> fst (fst (dec_members store_api_error ms (ae, e))) < 2 ^ 63"
    if "- (2 ^ 63) \<le> fst ae \<and> fst ae < 2 ^ 63" for ms ae e
    using that
  proof (induction ms arbitrary: ae e)
    case (Cons m ms)
    then show ?case using store [OF Cons.prems] by (cases m) (simp add: case_prod_beta Let_def)
  qed simp
  have "- (2 ^ 63) \<le> fst (fst (dec_struct store_api_error (st, [], []) j))
      \<and> fst (fst (dec_struct store_api_error (st, [], []) j)) < 2 ^ 63"
    if "- (2 ^ 63) \<le> st \<and> st < 2 ^ 63" for j
    using members [of "(st, [], [])"] that by (auto simp: dec_struct_def split: json.split)
  then show "if - (2 ^ 63) \<le> st \<and> st < 2 ^ 63
      then (case err_from_response \<lparr>rs_status = st, rs_body = b\<rparr> of
          ApiError st' code desc \<Rightarrow> - (2 ^ 63) \<le> st' \<and> st' < 2 ^ 63
        | _ \<Rightarrow> st = 404)
      else True"
    by (auto simp: err_from_response_def Let_def case_prod_beta split: option.split)
qed

text \<open>
  The readiness check is ready exactly when discovery answers 200 with a document that decodes and names an
  issuer; every other answer is an error of the check.
\<close>

lemma readyz_on_discovery:
  "fst (readyz http c w) = None \<longleftrightarrow> (\<exists>resp pm.
      fst (do_request http c ''GET'' ''/.well-known/openid-configuration'' [] [] w) = Inr resp
      \<and> rs_status resp = 200 \<and> decode_body decode_metadata (rs_body resp) = Inr pm \<and> pm_issuer pm \<noteq> [])"
  by (auto simp: readyz_def discovery_def split: prod.splits sum.splits if_splits)

section \<open>Against the server of fake.go\<close>

text \<open>Sequences of operations on the abstract registry.\<close>

inductive registry_run :: "client_op list \<Rightarrow> registry \<Rightarrow> registry \<Rightarrow> bool" where
  "registry_run [] m m"
| "registry_step op m m1 \<Longrightarrow> registry_run ops m1 m' \<Longrightarrow> registry_run (op # ops) m m'"

text \<open>
  C10: The client over the server refines the abstract registry: every sequence of client operations
  takes the map of registrations the way the specification does (a registration gets an unused identifier, a
  deletion removes the one client, an update the server accepts replaces name and URIs, everything else
  leaves the map alone).
\<close>

theorem client_refines_registry:
  assumes "server_fresh s"
  shows "registry_run ops (server_view s) (server_view (fold (client_step (fake_http base now) \<lparr>BaseURL = base\<rparr>) ops s))"
  using assms
proof (induction ops arbitrary: s)
  case (Cons op ops)
  show ?case
    unfolding fold.simps comp_def
    by (rule registry_run.intros(2) [OF fake.view_step [OF Cons.prems] Cons.IH [OF fake.inv_step [OF Cons.prems]]])
qed (simp add: registry_run.intros)

text \<open>
  C23: A registration stays as registered: after any operations that neither delete nor update it,
  \<open>GetClient\<close> returns the name and the redirect URIs it was registered with, and no secret.
\<close>

theorem registration_stays:
  assumes "server_fresh s"
    and "register (fake_http base now) \<lparr>BaseURL = base\<rparr> q s = (Inr fc, s1)"
    and "\<forall>op \<in> set ops. op_target op \<noteq> Some (fc_client_id fc)"
  shows "\<exists>s2. get_client (fake_http base now) \<lparr>BaseURL = base\<rparr> (fc_client_id fc)
      (fold (client_step (fake_http base now) \<lparr>BaseURL = base\<rparr>) ops s1)
    = (Inr \<lparr>fc_client_id = fc_client_id fc, fc_client_secret = [], fc_client_name = utf8 (rr_client_name q),
            fc_redirect_uris = map utf8 (rr_redirect_uris q)\<rparr>, s2)"
  by (rule fake.registered_stays [OF assms])

text \<open>
  C22: \<open>UpdateClient\<close> reports the truth: it returns no error exactly when the server ends with the name
  and the URIs asked for, although the server answers 200 to an edit it refuses; and a refused edit changes
  nothing.
\<close>

theorem update_reports_truth:
  assumes "server_fresh s" and "i \<noteq> []"
    and "update_client (fake_http base now) \<lparr>BaseURL = base\<rparr> i nm us s = (d, s')"
  shows "(d = None \<longleftrightarrow> (\<exists>vs. server_view s' i = Some (trim_space nm, vs) \<and> mset vs = mset (normalize_uris us)))
    \<and> (if edit_accepted us then server_view s' = (case server_view s i of None \<Rightarrow> server_view s
          | Some _ \<Rightarrow> (server_view s)(i \<mapsto> (utf8 (trim_space nm), map utf8 (edit_lines (normalize_uris us)))))
       else s' = s)"
proof -
  obtain al where al: "fs_clients s = Some al" using assms(1) by (rule server_freshE)
  note u = update_fake [OF _ al assms(2,3)]
  show ?thesis
  proof (cases "map_of al i")
    case None
    then show ?thesis using u al by (auto simp: server_view_def)
  next
    case (Some x)
    then show ?thesis
      using u al by (auto simp: server_view_def fun_eq_iff update_conv' edited_def)
  qed
qed

text \<open>
  C39: Secrets are shown once: the list and a single read never carry a client secret, for any state of the
  server, while a registration returns a secret that is not empty.
\<close>

theorem reads_hide_secrets:
  "(\<forall>fc \<in> (case fst (list_clients (fake_http base now) \<lparr>BaseURL = base\<rparr> s) of Inl _ \<Rightarrow> {} | Inr l \<Rightarrow> set l).
      fc_client_secret fc = [])
   \<and> (case fst (get_client (fake_http base now) \<lparr>BaseURL = base\<rparr> (c # i) s) of
        Inl e \<Rightarrow> e = ErrNotFound | Inr fc \<Rightarrow> fc_client_secret fc = [])
   \<and> (case fst (register (fake_http base now) \<lparr>BaseURL = base\<rparr> q s) of
        Inl _ \<Rightarrow> True | Inr fc \<Rightarrow> fc_client_secret fc \<noteq> [])"
proof -
  have "case fst (register (fake_http base now) \<lparr>BaseURL = base\<rparr> q s) of Inl _ \<Rightarrow> True | Inr fc \<Rightarrow> fc_client_secret fc \<noteq> []"
    using register_complete [of "fake_http base now" "\<lparr>BaseURL = base\<rparr>" q s]
    by (cases "register (fake_http base now) \<lparr>BaseURL = base\<rparr> q s") (auto split: sum.split)
  then show ?thesis
    by (auto simp: list_fake get_fake seen_def blank_secret_def split: option.split)
qed

text \<open>
  Deleting is idempotent: after \<open>DeleteClient\<close> of a client, \<open>GetClient\<close> reports \<open>ErrNotFound\<close>, and a
  second deletion is answered with an error the reconciler counts as success.
\<close>

lemma delete_is_idempotent:
  assumes "server_fresh s" and "i \<noteq> []"
  shows "fst (get_client (fake_http base now) \<lparr>BaseURL = base\<rparr> i
      (snd (delete_client (fake_http base now) \<lparr>BaseURL = base\<rparr> i s))) = Inl ErrNotFound
    \<and> delete_failure (fst (delete_client (fake_http base now) \<lparr>BaseURL = base\<rparr> i
        (snd (delete_client (fake_http base now) \<lparr>BaseURL = base\<rparr> i s)))) = None"
proof -
  let ?s = "snd (delete_client (fake_http base now) \<lparr>BaseURL = base\<rparr> i s)"
  have g: "get_client (fake_http base now) \<lparr>BaseURL = base\<rparr> i ?s = (Inl ErrNotFound, ?s)"
    using fake.deleted_is_gone [OF assms, of base now] by simp
  then have "gm_get (fs_clients ?s) i = None"
    using assms(2) by (simp add: get_fake split: option.splits)
  then show ?thesis using g assms(2) by (simp add: delete_fake delete_failure_def)
qed

section \<open>Admission and the server's own validation\<close>

lemma to_lower_ascii: "list_all (\<lambda>c. byte c < 128) s \<Longrightarrow> to_lower s = lower_ascii s"
proof (induction s)
  case (Cons c s)
  have "encode_rune (lower_rune (byte c)) = [if 65 \<le> byte c \<and> byte c \<le> 90 then chr (byte c + 32) else c]"
    using Cons.prems by (auto simp: encode_rune_def lower_rune_def)
  then show ?case
    using Cons by (simp add: to_lower_def lower_ascii_def runes_ascii)
qed (simp add: to_lower_def lower_ascii_def)

text \<open>
  \<open>lowerAscii\<close> leaves the letter U+0130 alone, \<open>strings.ToLower\<close> makes
  it an i: the CRD admits the following URI, and the server rejects it as a \<open>file:\<close> URI.
\<close>

definition dotted_file_uri :: string where
  "dotted_file_uri = ''f'' @ [chr 196, chr 176] @ ''le:x''"

lemma dotted_bytes: "byte (chr 196) = 196" "byte (chr 176) = 176"
  by (simp_all add: byte_chr)

lemma dotted_runes: "runes dotted_file_uri = [102, 304, 108, 101, 58, 120]"
proof -
  have "decode_rune (chr 196 # chr 176 # t) = (304, 2)" for t
    by (simp add: decode_rune_def dotted_bytes second_ok_def)
  then have "runes (chr 196 # chr 176 # ''le:x'') = 304 # runes ''le:x''"
    by (simp add: runes_def segs.simps(2))
  moreover have "runes ''le:x'' = [108, 101, 58, 120]" by (simp add: ascii_runes byte_def)
  moreover have "runes (CHR ''f'' # t) = 102 # runes t" for t by (subst runes_ascii) (simp_all add: byte_def)
  ultimately show ?thesis by (simp add: dotted_file_uri_def)
qed

lemma dotted_lower: "to_lower dotted_file_uri = ''file:x''"
  using chr_byte [of "CHR ''f''"] chr_byte [of "CHR ''i''"] chr_byte [of "CHR ''l''"] chr_byte [of "CHR ''e''"]
    chr_byte [of "CHR '':''"] chr_byte [of "CHR ''x''"]
  by (simp add: to_lower_def dotted_runes lower_rune_def encode_rune_def byte_def)

lemma dotted_lower_ascii: "lower_ascii dotted_file_uri = dotted_file_uri"
  unfolding lower_ascii_def
  by (rule map_idI) (use dotted_bytes in \<open>auto simp: dotted_file_uri_def\<close>, simp_all add: byte_def)

lemma admitted_uri_rejected:
  "uri_admitted dotted_file_uri \<and> edit_rejects dotted_file_uri"
proof -
  have "chr 196 \<noteq> CHR ''i''" using dotted_bytes by (auto simp: byte_def)
  then have "\<not> has_prefix dotted_file_uri q" if "q \<in> set blocked_schemes" for q
    using that by (auto simp: blocked_schemes_def has_prefix_def dotted_file_uri_def)
  moreover have "contains dotted_file_uri '':''"
    using contains_append_right by (auto simp: dotted_file_uri_def contains_iff Cons_eq_append_conv)
  ultimately have "uri_admitted dotted_file_uri"
    by (auto simp: uri_admitted_def dotted_runes dotted_lower_ascii list_ex_iff)
  moreover have "has_prefix (to_lower dotted_file_uri) ''file:''" by (simp add: dotted_lower has_prefix_def)
  ultimately show ?thesis by (simp add: edit_rejects_def dangerous_schemes_def)
qed

text \<open>
  C40: What the CRD admits, \<open>/edit\<close> accepts, for ASCII URIs: an admitted redirect URI of ASCII characters is
  never rejected by the server's scheme blocklist, so it cannot wedge an in-place update. Beyond ASCII the two
  lists differ: an admitted URI with the letter U+0130 is rejected.
\<close>

theorem admitted_uri_editable:
  assumes "uri_admitted u" and "list_all (\<lambda>c. byte c < 128) u"
  shows "\<not> edit_rejects u \<and> (\<exists>v. uri_admitted v \<and> edit_rejects v)"
proof -
  have "\<not> edit_rejects u"
    using assms(1)
    by (auto simp: edit_rejects_def uri_admitted_def to_lower_ascii [OF assms(2)] dangerous_schemes_def blocked_schemes_def)
  then show ?thesis using admitted_uri_rejected by blast
qed

section \<open>Witnesses\<close>

lemma example_spec_admitted: "spec_admitted example_spec"
proof -
  have "runes ''https://a/cb'' = map byte ''https://a/cb''" "runes ''App'' = map byte ''App''"
    by (simp_all add: ascii_runes byte_def)
  moreover have "lower_ascii ''https://a/cb'' = ''https://a/cb''" by (simp add: lower_ascii_def byte_def)
  ultimately show ?thesis
    by (simp add: spec_admitted_def example_spec_def uri_admitted_def blocked_schemes_def has_prefix_def)
qed

definition example_server :: fake_server where
  "example_server = \<lparr>fs_issuer = ''http://t'',
     fs_clients = Some [(''c1'', \<lparr>fk_client_id = ''c1'', fk_client_secret = ''s1'',
       fk_client_name = ''App [k8s:team/app/0a1b2c3d]'', fk_redirect_uris = [''https://a/cb''],
       fk_created_at = ''2024-01-01T00:00:00Z''\<rparr>)], fs_next_id = 0\<rparr>"

lemma example_server_fresh: "server_fresh example_server"
  by (simp add: server_fresh_def example_server_def entry_ok_def ascii_valid_utf8 byte_def)

lemma example_uri_edit:
  "normalize_uris [''https://a/cb''] = [''https://a/cb'']" "edit_lines [''https://a/cb''] = [''https://a/cb'']"
  "edit_accepted [''https://a/cb'']"
proof -
  have t: "trim_space ''https://a/cb'' = ''https://a/cb''"
    by (rule ascii_trim) (simp add: byte_def is_space_def)
  show n: "normalize_uris [''https://a/cb''] = [''https://a/cb'']" by (simp add: normalize_uris_def t)
  show e: "edit_lines [''https://a/cb''] = [''https://a/cb'']" by (simp add: edit_lines_def t)
  have "to_lower ''https://a/cb'' = lower_ascii ''https://a/cb''" by (rule to_lower_ascii) (simp add: byte_def)
  then have "\<not> edit_rejects ''https://a/cb''"
    by (simp add: edit_rejects_def lower_ascii_def byte_def dangerous_schemes_def has_prefix_def)
  then show "edit_accepted [''https://a/cb'']" by (simp add: edit_accepted_def n e)
qed

theorem in_place_update_settles_witness:
  "\<exists>w'. update_client (fake_http ''http://t'' ''now'') \<lparr>BaseURL = ''http://t''\<rparr> ''c1'' (registered_name example_object)
      [''https://a/cb''] example_server = (None, w')
    \<and> (\<exists>got w1. get_client (fake_http ''http://t'' ''now'') \<lparr>BaseURL = ''http://t''\<rparr> ''c1'' w1 = (Inr got, w')
         \<and> \<not> drifted example_object got)"
proof -
  let ?c = "\<lparr>BaseURL = ''http://t''\<rparr>"
  obtain d w' where u: "update_client (fake_http ''http://t'' ''now'') ?c ''c1'' (registered_name example_object)
      [''https://a/cb''] example_server = (d, w')"
    by fastforce
  have tr: "trim_space ''App [k8s:team/app/0a1b2c3d]'' = ''App [k8s:team/app/0a1b2c3d]''"
    using registered_name_trimmed [OF example_plain(1)] by simp
  have ok: "utf8 ''App [k8s:team/app/0a1b2c3d]'' = ''App [k8s:team/app/0a1b2c3d]''" "utf8 ''https://a/cb'' = ''https://a/cb''"
    by (simp_all add: utf8_ascii byte_def)
  have "fs_clients example_server \<noteq> None" by (simp add: example_server_def)
  then obtain al where al: "fs_clients example_server = Some al" by blast
  have "server_view w' ''c1'' = Some (''App [k8s:team/app/0a1b2c3d]'', [''https://a/cb''])"
    using update_fake [OF _ al _ u] al
    by (auto simp: example_uri_edit tr ok server_view_def edited_def example_server_def split: option.splits)
  then have "d = None" using update_fake [OF _ al _ u] by (simp add: example_uri_edit tr)
  then show ?thesis
    using u in_place_update_settles [of example_object "fake_http ''http://t'' ''now''" ?c "''c1''" example_server w']
      example_plain
    by (simp add: example_spec_admitted)
qed

theorem not_found_means_404_witness:
  "errors_is ErrNotFound ErrNotFound
   \<and> fst (get_client (\<lambda>rq w. (Inr \<lparr>rs_status = 404, rs_body = []\<rparr>, w)) \<lparr>BaseURL = []\<rparr> ''c1'' ()) = Inl ErrNotFound
   \<and> ((\<exists>e. fst (get_client (\<lambda>rq w. (Inr \<lparr>rs_status = 404, rs_body = []\<rparr>, w)) \<lparr>BaseURL = []\<rparr> ''c1'' ()) = Inl e
        \<and> errors_is e ErrNotFound))"
  using not_found_means_404 [of "\<lambda>rq w. (Inr \<lparr>rs_status = 404, rs_body = []\<rparr>, w)" "\<lparr>BaseURL = []\<rparr>" "''c1''" "()"]
  by (simp add: do_request_def get_client_def err_from_response_def)

theorem client_refines_registry_witness:
  "registry_run [OpDelete ''c1'', OpList] (server_view example_server)
     (server_view (fold (client_step (fake_http ''http://t'' ''now'') \<lparr>BaseURL = ''http://t''\<rparr>)
        [OpDelete ''c1'', OpList] example_server))"
  by (rule client_refines_registry [OF example_server_fresh])

lemma example_register:
  obtains fc s1 where "register (fake_http ''http://t'' ''now'') \<lparr>BaseURL = ''http://t''\<rparr>
      (registration_of example_object) example_server = (Inr fc, s1)"
    and "fc_client_id fc = ''fake-client-1''"
proof -
  have "fs_clients example_server \<noteq> None" by (simp add: example_server_def)
  then obtain al where al: "fs_clients example_server = Some al" by blast
  have "decimal 1 = ''1''" by (subst decimal.simps) (use chr_byte [of "CHR ''1''"] in \<open>simp add: byte_def\<close>)
  then have "utf8 (''fake-client-'' @ decimal 1) = ''fake-client-1''" by (simp add: utf8_ascii byte_def)
  then show ?thesis
    using that register_fake [of "\<lparr>BaseURL = ''http://t''\<rparr>" "''http://t''" example_server al "registration_of example_object" "''now''", OF _ al]
    by (simp add: registration_of_def seen_def registered_as_def example_server_def)
qed

theorem registration_stays_witness:
  "\<exists>fc s1 s2. register (fake_http ''http://t'' ''now'') \<lparr>BaseURL = ''http://t''\<rparr>
      (registration_of example_object) example_server = (Inr fc, s1)
    \<and> get_client (fake_http ''http://t'' ''now'') \<lparr>BaseURL = ''http://t''\<rparr> (fc_client_id fc)
       (fold (client_step (fake_http ''http://t'' ''now'') \<lparr>BaseURL = ''http://t''\<rparr>) [OpDelete ''c1'', OpList] s1)
      = (Inr \<lparr>fc_client_id = fc_client_id fc, fc_client_secret = [],
              fc_client_name = utf8 (rr_client_name (registration_of example_object)),
              fc_redirect_uris = map utf8 (rr_redirect_uris (registration_of example_object))\<rparr>, s2)"
proof -
  obtain fc s1 where r: "register (fake_http ''http://t'' ''now'') \<lparr>BaseURL = ''http://t''\<rparr>
      (registration_of example_object) example_server = (Inr fc, s1)" "fc_client_id fc = ''fake-client-1''"
    by (rule example_register)
  then show ?thesis
    using registration_stays [OF example_server_fresh r(1), of "[OpDelete ''c1'', OpList]"] by simp
qed

theorem update_reports_truth_witness:
  "\<exists>d s'. update_client (fake_http ''http://t'' ''now'') \<lparr>BaseURL = ''http://t''\<rparr> ''c1'' ''New'' [] example_server = (d, s')
    \<and> d \<noteq> None \<and> s' = example_server"
proof -
  obtain d s' where u: "update_client (fake_http ''http://t'' ''now'') \<lparr>BaseURL = ''http://t''\<rparr> ''c1'' ''New'' []
      example_server = (d, s')" by fastforce
  have "trim_space [] = []" by simp
  then have "\<not> edit_accepted []" by (simp add: edit_accepted_def normalize_uris_def edit_lines_def)
  moreover have "server_view example_server ''c1'' \<noteq> Some (n, [])" for n
    by (simp add: server_view_def example_server_def)
  ultimately show ?thesis
    using u update_reports_truth [OF example_server_fresh _ u] by (auto simp: normalize_uris_def)
qed

theorem reads_hide_secrets_witness:
  "case fst (get_client (fake_http ''http://t'' ''now'') \<lparr>BaseURL = ''http://t''\<rparr> ''c1'' example_server) of
     Inl e \<Rightarrow> e = ErrNotFound | Inr fc \<Rightarrow> fc_client_secret fc = []"
  using reads_hide_secrets [of "''http://t''" "''now''" example_server "CHR ''c''" "''1''"] by blast

theorem admitted_uri_editable_witness:
  "uri_admitted ''https://a/cb'' \<and> \<not> edit_rejects ''https://a/cb''"
proof -
  have "uri_admitted ''https://a/cb''"
    using example_spec_admitted by (simp add: spec_admitted_def example_spec_def)
  then show ?thesis using admitted_uri_editable [of "''https://a/cb''"] by (simp add: byte_def)
qed

end
