(* ===== verification/WorldProperties.thy ===== *)
theory WorldProperties
  imports Convergence Interference ClientProperties
begin

text \<open>
  Properties of the operator with its surroundings: what holds over the whole life of a cluster whatever
  the other actors do in between (\<open>busy_env\<close>), the wedge a stripped label causes, and concrete
  worlds for the properties of \<open>Convergence\<close>.
\<close>

section \<open>The life of a cluster\<close>

text \<open>A cluster before the operator was installed: no object of the kind, and a fresh tsidp.\<close>

definition installed :: "world \<Rightarrow> bool" where
  "installed w \<longleftrightarrow> (\<forall>k. w_objects w k = None) \<and> (\<exists>url. w_tsidp w = new_server url)"

text \<open>
  Its life under the schedule \<open>sched\<close> of the other actors: reconciles of any objects, run to their end or
  killed after any call, with a step of another actor allowed after every call and between the reconciles.
\<close>

abbreviation life :: "string \<Rightarrow> (nat \<Rightarrow> world \<Rightarrow> world) \<Rightarrow> reconciler \<Rightarrow> world \<times> nat \<Rightarrow> world \<times> nat \<Rightarrow> bool" where
  "life base sched R \<equiv> lifetime (busy_env base sched) R (\<lambda>s s'. others (fst s) (fst s'))"

lemma installed_one_each:
  assumes "installed w"
  shows "one_each (\<lambda>s. world_clients (fst s)) (\<lambda>s. world_objects (fst s)) (w, k :: nat) \<and> world_ok w"
  using assms
  by (auto simp: installed_def one_each_def world_ok_def server_ok_def world_clients_def server_clients_def
      gm_entries_def new_server_def tagged_def world_objects_def)

lemma life_one_each:
  assumes "installed w0" and "life base sched R (w0, k0) s"
  shows "one_each (\<lambda>s. world_clients (fst s)) (\<lambda>s. world_objects (fst s)) s \<and> world_ok (fst s)"
  by (rule busy_world.lifetime_one_each [OF assms(2), THEN conjE])
    (use installed_one_each [OF assms(1)] in simp_all)



section \<open>A Secret without its label\<close>

text \<open>
  The Secret of a registered object has lost the operator's label, so the manager's cache does not
  hold it any more; everything else is in order.
\<close>

definition label_lost :: "reconciler \<Rightarrow> string \<Rightarrow> string \<Rightarrow> world \<Rightarrow> bool" where
  "label_lost R ns n w \<longleftrightarrow> (\<exists>oc sec x. w_objects w (ns, n) = Some oc \<and> key_of oc = (ns, n)
     \<and> oc_deletion_timestamp oc = None \<and> FinalizerName \<in> set (oc_finalizers oc)
     \<and> find bad_uri (RedirectURIs (Spec oc)) = None
     \<and> client_id oc \<noteq> [] \<and> st_secret_name (Status oc) = secret_name oc
     \<and> w_secrets w (ns, secret_name oc) = Some sec \<and> owned_by R oc sec \<and> holds_credentials sec (client_id oc)
     \<and> \<not> secret_selected sec
     \<and> gm_get (fs_clients (w_tsidp w)) (client_id oc) = Some x \<and> \<not> drifted oc (seen (blank_secret x))
     \<and> fs_issuer (w_tsidp w) \<noteq> [])"

lemma upsert_unselected:
  assumes "w_secrets w (ns, k) = Some sec" and "\<not> secret_selected sec"
  shows "\<exists>err. api_upsert_secret ns k m w = (Some err, w)"
  using assms by (auto simp: api_upsert_secret_def cached_def cached_secret_def Let_def split: sum.split)

lemma failing_pass:
  assumes "find bad_uri (RedirectURIs (Spec oc)) = None" and "client_id oc \<noteq> []"
    and "st_secret_name (Status oc) \<in> {[], secret_name oc}"
    and "e_discovery E w = (Inr disc, w1)"
    and "e_get_client E (client_id oc) w1 = (Inr remote, w2)" and "\<not> drifted oc remote"
    and "e_read_secret E (oc_namespace oc) (secret_name oc) w2 = (Inr sec, w3)"
    and "holds_credentials sec (client_id oc)"
    and "\<And>m. \<exists>err. e_upsert_secret E (oc_namespace oc) (secret_name oc) m w3 = (Some err, w4)"
  shows "\<exists>err t. run E (reconcile_normal R oc) w =
    (not_ready R (set_issuer (pm_issuer disc) oc) ''SecretWriteFailed'' (ErrText err), w4, t)"
proof -
  obtain err where "e_upsert_secret E (oc_namespace oc) (secret_name oc)
      (upsert_mutate R (set_issuer (pm_issuer disc) oc) (\<lambda>s. set_secret_metadata s disc (RedirectURIs (Spec oc)))) w3
    = (Some err, w4)"
    using assms(9) by blast
  then show ?thesis
    using assms(5-8)
    by (auto simp: registered_pass [OF assms(1-4)] reconcile_registered_def check_drift_def converge_secret_def
        upsert_secret_def log_call_def)
qed

lemma label_lost_pass:
  assumes R: "library_laws R" and "label_lost R ns n w"
  shows "\<exists>w' t y. run (world_env base) (reconcile R ns n) w = ((requeue errBackoff, None), w', t)
    \<and> label_lost R ns n w' \<and> w_secrets w' = w_secrets w \<and> w_tsidp w' = w_tsidp w
    \<and> w_objects w' (ns, n) = Some y \<and> ready_status (st_conditions (Status y)) = Some ''False''"
proof -
  obtain oc sec x where oc: "w_objects w (ns, n) = Some oc" "key_of oc = (ns, n)" "oc_deletion_timestamp oc = None"
    "FinalizerName \<in> set (oc_finalizers oc)" "find bad_uri (RedirectURIs (Spec oc)) = None"
    "client_id oc \<noteq> []" "st_secret_name (Status oc) = secret_name oc"
    and sec: "w_secrets w (ns, secret_name oc) = Some sec" "owned_by R oc sec" "holds_credentials sec (client_id oc)"
      "\<not> secret_selected sec"
    and x: "gm_get (fs_clients (w_tsidp w)) (client_id oc) = Some x" "\<not> drifted oc (seen (blank_secret x))"
      "fs_issuer (w_tsidp w) \<noteq> []"
    using assms(2) unfolding label_lost_def by blast
  let ?oc = "set_issuer (pm_issuer (metadata_of (w_tsidp w))) oc"
  have ns: "oc_namespace oc = ns" using oc(2) by simp
  obtain err t where r: "run (world_env base) (reconcile_normal R oc) w =
      (not_ready R ?oc ''SecretWriteFailed'' (ErrText err), w, t)"
    using failing_pass [of oc "world_env base" w "metadata_of (w_tsidp w)" w "seen (blank_secret x)" w sec w w R,
        OF oc(5,6) _ _ _ x(2) _ sec(3)] oc(7) world_calls(2) [OF x(3)] world_calls(3) [OF oc(6)] x(1) sec(1)
      upsert_unselected [OF sec(1,4)]
    by (auto simp: api_read_secret_def ns)
  define y where "y = set_cond R ?oc ''False'' ''SecretWriteFailed'' (ErrText err)"
  have same: "same_object oc y"
    by (simp add: y_def same_object_def set_cond_def set_issuer_def)
  define z where "z = oc\<lparr>oc_resource_version := decimal (w_clock w), Status := Status (observe_generation y)\<rparr>"
  have u: "e_update_status (world_env base) (observe_generation y) w = (Inr z, store_object z w)"
    using status_written [OF _ same, of w] oc(1,2) by (simp add: z_def)
  have get: "e_get_oidc (world_env base) ns n w = (Inr oc, w)" using oc(1) by (simp add: api_get_def)
  have fin: "contains_finalizer R (oc_finalizers oc) FinalizerName" using oc(4) library_lawsD(1) [OF R] by blast
  have r': "run (world_env base) (reconcile_normal R oc) w = ((y, requeue errBackoff, None), w, t)"
    using r by (simp add: not_ready_def y_def)
  note run = live_run [OF get oc(3) fin r' u]
  have id: "oc_name z = oc_name oc" "oc_namespace z = oc_namespace oc" "oc_uid z = oc_uid oc" "Spec z = Spec oc"
    "oc_deletion_timestamp z = None" "oc_finalizers z = oc_finalizers oc"
    using oc(3) by (simp_all add: z_def)
  note c = identity_cong [OF id(1-4)]
  have st: "client_id z = client_id oc" "st_secret_name (Status z) = st_secret_name (Status oc)"
    "ready_status (st_conditions (Status z)) = Some ''False''"
    using library_lawsD(4) [OF R]
    by (simp_all add: z_def y_def observe_generation_def set_cond_def set_issuer_def)
  have w: "w_secrets (store_object z w) = w_secrets w" "w_objects (store_object z w) (ns, n) = Some z"
    using id(1,2) oc(2) by (simp_all add: store_object_def)
  have "key_of z = (ns, n)" using id(1,2) oc(2) by simp
  then have "label_lost R ns n (store_object z w)"
    unfolding label_lost_def w using oc sec x id st(1,2) c by auto
  then show ?thesis using run w st(3) by auto
qed

text \<open>
  C25: A lost label is never healed: once the Secret of a registered object has lost the operator's label,
  no number of reconciles changes a Secret or tsidp again; each ends with Ready false and asks for
  another retry. The Secret is found by the direct reads and missed by \<open>CreateOrUpdate\<close>, which reads
  through the label-filtered cache and then fails to create what exists.
\<close>

theorem lost_label_wedges:
  assumes "library_laws R" and "label_lost R ns n w" and "(reconciles_to base R ns n)\<^sup>*\<^sup>* w w'"
  shows "w_secrets w' = w_secrets w \<and> w_tsidp w' = w_tsidp w
    \<and> (\<exists>w'' t oc. run (world_env base) (reconcile R ns n) w' = ((requeue errBackoff, None), w'', t)
         \<and> w_objects w'' (ns, n) = Some oc \<and> ready_status (st_conditions (Status oc)) = Some ''False'')"
proof -
  have "label_lost R ns n w' \<and> w_secrets w' = w_secrets w \<and> w_tsidp w' = w_tsidp w"
    using assms(3)
  proof induction
    case (step v v')
    then show ?case using label_lost_pass [OF assms(1), of ns n v base] by (auto simp: reconciles_to_def)
  qed (use assms(2) in simp)
  then show ?thesis using label_lost_pass [OF assms(1), of ns n w' base] by blast
qed

section \<open>Concrete worlds\<close>

definition fresh_world :: world where
  "fresh_world = \<lparr>w_objects = (\<lambda>_. None), w_secrets = (\<lambda>_. None), w_tsidp = new_server ''http://t'',
     w_events = [], w_clock = 2, w_now = ''2024-01-01T00:00:00Z''\<rparr>"

definition new_world :: world where
  "new_world = store_object example_object fresh_world"

definition leaving_object :: oidc_client where
  "leaving_object = example_object\<lparr>oc_deletion_timestamp := Some ''2024-01-02T00:00:00Z'',
     oc_resource_version := decimal (w_clock new_world)\<rparr>"

definition leaving_world :: world where
  "leaving_world = store_object leaving_object new_world"

lemma fresh_installed: "installed fresh_world"
  by (auto simp: installed_def fresh_world_def)

lemma example_well_named: "well_named example_object"
  using example_plain by (simp add: well_named_def)

lemma example_life:
  "life ''http://t'' (\<lambda>k w. w) example_reconciler (fresh_world, 0) (new_world, 0)"
  "life ''http://t'' (\<lambda>k w. w) example_reconciler (fresh_world, 0) (leaving_world, 0)"
proof -
  have "others fresh_world new_world"
    unfolding new_world_def
    by (rule others.create) (use example_well_named in \<open>simp_all add: fresh_world_def\<close>)
  then show l: "life ''http://t'' (\<lambda>k w. w) example_reconciler (fresh_world, 0) (new_world, 0)"
    by (intro lifetime.outside [OF lifetime.begun]) simp
  have "w_objects new_world (key_of example_object) = Some example_object" by (simp add: new_world_def)
  then have "others new_world leaving_world"
    unfolding leaving_world_def leaving_object_def by (rule others.delete)
  then show "life ''http://t'' (\<lambda>k w. w) example_reconciler (fresh_world, 0) (leaving_world, 0)"
    by (intro lifetime.outside [OF l]) simp
qed

lemma undisturbed [simp]: "obedient (\<lambda>k w. w) = (\<lambda>k w. w)"
  by (intro ext) (simp add: obedient_def)


lemma leaving_simps [simp]:
  "w_objects leaving_world (''team'', ''app'') = Some leaving_object"
  "gm_entries (fs_clients (w_tsidp leaving_world)) = []"
  "oc_deletion_timestamp leaving_object = Some ''2024-01-02T00:00:00Z''" "oc_finalizers leaving_object = [FinalizerName]"
  "oc_annotations leaving_object = None" "Spec leaving_object = example_spec" "client_id leaving_object = []"
  "oc_name leaving_object = ''app''" "oc_namespace leaving_object = ''team''"
  "must_deregister leaving_object"
  by (simp_all add: leaving_world_def leaving_object_def new_world_def fresh_world_def new_server_def gm_entries_def
      must_deregister_def forced_def)


section \<open>Witnesses of \<open>Convergence\<close>\<close>

lemma example_library: "library_laws example_reconciler"
  by (auto simp: library_laws_def ready_status_def owned_by_def example_reconciler_def)

lemma example_sound: "sound_spec example_object"
proof -
  have "valid_utf8 (registered_name example_object)" "valid_utf8 ''https://a/cb''"
    by (simp_all add: ascii_valid_utf8 byte_def)
  then show ?thesis
    using example_well_named example_spec_admitted example_template_wf by (simp add: sound_spec_def)
qed

lemma new_unregistered: "unregistered ''team'' ''app'' new_world"
  using example_sound
  by (simp add: unregistered_def new_world_def)
    (simp add: store_object_def fresh_world_def new_server_def tagged_def world_clients_def server_clients_def gm_entries_def)

lemma example_converges:
  obtains w t where "run (world_env ''http://t'') (reconcile example_reconciler ''team'' ''app'') new_world
      = ((requeue (600 * second), None), w, t)" and "in_sync example_reconciler ''team'' ''app'' w"
  using first_reconcile [OF example_library new_unregistered, of "''http://t''"] by auto


theorem in_sync_stable_witness:
  "\<exists>w w'. in_sync example_reconciler ''team'' ''app'' w
     \<and> (reconciles_to ''http://t'' example_reconciler ''team'' ''app'')\<^sup>*\<^sup>* w w' \<and> in_sync example_reconciler ''team'' ''app'' w' \<and> w_tsidp w' = w_tsidp w"
proof -
  obtain w t where w: "in_sync example_reconciler ''team'' ''app'' w" by (rule example_converges)
  then obtain w' t' where r: "run (world_env ''http://t'') (reconcile example_reconciler ''team'' ''app'') w
      = ((requeue (600 * second), None), w', t')"
    using in_sync_pass [OF example_library, of "''team''" "''app''" w "''http://t''"] by auto
  then have "(reconciles_to ''http://t'' example_reconciler ''team'' ''app'')\<^sup>*\<^sup>* w w'"
    by (auto simp: reconciles_to_def)
  then show ?thesis
    using in_sync_stable [OF example_library w] w by blast
qed

theorem deletion_completes_witness:
  "\<exists>w' t. run (world_env ''http://t'') (reconcile example_reconciler ''team'' ''app'') leaving_world
      = ((requeue 0, None), w', t) \<and> w_objects w' (''team'', ''app'') = None"
proof -
  have "server_fresh (w_tsidp leaving_world)"
    by (simp add: leaving_world_def new_world_def fresh_world_def server_fresh_def new_server_def)
  then show ?thesis
    using deletion_completes [OF example_library, of leaving_world "''team''" "''app''" leaving_object "''http://t''"]
      example_spec_admitted by auto
qed

text \<open>The registered object, with a Secret whose labels a user has removed.\<close>

definition unlabelled_world :: world where
  "unlabelled_world = (store_object example_registered fresh_world)
     \<lparr>w_secrets := [(''team'', ''app-oidc'') \<mapsto> example_secret\<lparr>s_labels := None\<rparr>], w_tsidp := example_server\<rparr>"

lemma unlabelled_lost: "label_lost example_reconciler ''team'' ''app'' unlabelled_world"
proof -
  have key: "oc_name example_registered = ''app''" "oc_namespace example_registered = ''team''"
    by (simp_all add: example_registered_def set_status_secret_def set_client_id_def)
  have "owned_by example_reconciler example_registered (example_secret\<lparr>s_labels := None\<rparr>)"
    using example_registered_simps(11) by (simp add: owned_by_def)
  moreover have "holds_credentials (example_secret\<lparr>s_labels := None\<rparr>) ''c1''"
    using example_secret_simps(1) by (simp add: holds_credentials_def data_of_def)
  moreover have "\<not> secret_selected (example_secret\<lparr>s_labels := None\<rparr>)"
    by (simp add: secret_selected_def ManagedSecretLabels_def)
  moreover obtain x where x: "gm_get (fs_clients example_server) ''c1'' = Some x"
    "fk_client_name x = ''App [k8s:team/app/0a1b2c3d]''" "fk_redirect_uris x = [''https://a/cb'']" "fk_client_id x = ''c1''"
    by (simp add: example_server_def)
  moreover have "\<not> drifted example_registered (seen (blank_secret x))"
    using x by (simp add: drifted_def seen_def blank_secret_def same_string_set_def utf8_ascii byte_def)
  ultimately show ?thesis
    unfolding label_lost_def
    by (intro exI [of _ example_registered] exI [of _ "example_secret\<lparr>s_labels := None\<rparr>"] exI [of _ x])
      (simp add: unlabelled_world_def key, simp add: example_server_def)
qed

theorem lost_label_wedges_witness:
  "\<exists>w'' t oc. run (world_env ''http://t'') (reconcile example_reconciler ''team'' ''app'') unlabelled_world
      = ((requeue errBackoff, None), w'', t)
    \<and> w_objects w'' (''team'', ''app'') = Some oc \<and> ready_status (st_conditions (Status oc)) = Some ''False''"
  using lost_label_wedges [OF example_library unlabelled_lost, of "''http://t''" unlabelled_world] by simp

end
