(* ===== verification/DataProperties.thy ===== *)
theory DataProperties
  imports ClientProperties
begin

text \<open>
  Properties of the data on the way between the parts: fingerprints inside names, URI lists up to order, JSON
  bodies between client and server, and how far the parser may be trusted to have finished.
\<close>

section \<open>Names and lists\<close>

text \<open>
  C21: Fingerprints isolate: the name of a registration made for one object contains the fingerprint of
  another, as it is or trimmed the way the server trims it, only when both have the same namespace and name and UIDs
  that start alike. No display name a user chooses can imitate a fingerprint.
\<close>

theorem fingerprint_isolation:
  assumes "plain_metadata x" and "plain_metadata y" and "\<not> contains (ClientName (Spec y)) ''[k8s:''"
  shows "(contains (registered_name y) (fingerprint x) \<longleftrightarrow>
      oc_namespace x = oc_namespace y \<and> oc_name x = oc_name y \<and> take_runes 8 (oc_uid x) = take_runes 8 (oc_uid y))
    \<and> trim_space (registered_name y) = registered_name y"
proof -
  have "fingerprint x = fingerprint y \<longleftrightarrow>
      oc_namespace x = oc_namespace y \<and> oc_name x = oc_name y \<and> take_runes 8 (oc_uid x) = take_runes 8 (oc_uid y)"
    using fingerprint_inj [OF assms(1,2)] by (auto simp: fingerprint_def)
  then show ?thesis
    using contains_fingerprint_iff [OF assms] registered_name_trimmed [OF assms(2)] by simp
qed

theorem fingerprint_isolation_witness:
  "\<not> contains (registered_name example_object) (fingerprint (example_object\<lparr>oc_name := ''ap''\<rparr>))"
proof -
  have "plain_metadata (example_object\<lparr>oc_name := ''ap''\<rparr>)"
    using example_plain(1) by (simp add: plain_metadata_def plain_char_def byte_def)
  from fingerprint_isolation [OF this example_plain] show ?thesis by simp
qed

text \<open>
  C35: Drift is a matter of content, not of order: the controller's and the client's comparison of URI lists agree
  and say that the lists are permutations of each other, so a registration is drifted unless it has the
  registered name and a permutation of the redirect URIs of the spec.
\<close>

theorem drift_up_to_order:
  "drifted oc remote = (\<not> (fc_client_name remote = registered_name oc
      \<and> mset (fc_redirect_uris remote) = mset (RedirectURIs (Spec oc))))
   \<and> same_string_set us vs = (mset us = mset vs) \<and> same_set us vs = same_string_set us vs"
  by (auto simp: drifted_def same_string_set_mset same_set_mset)

section \<open>JSON bodies\<close>

text \<open>
  C32: What one side writes, the other reads: the server's description of a client decodes to that client, a list
  of descriptions to the list, and a registration request to its redirect URIs and its name; strings arrive as
  they were, but for bytes that are no UTF-8, which arrive as U+FFFD.
\<close>

theorem bodies_roundtrip:
  "decode_body decode_funnel (json_body (client_json c)) = Inr (seen c)
   \<and> decode_body decode_funnels (json_body (JArr (map client_json cs))) = Inr (map seen cs)
   \<and> (\<exists>st. map_option decode_register_body (json_decode (json_text (registration_json q)))
        = Some (((map utf8 (rr_redirect_uris q), st), utf8 (rr_client_name q)), False))
   \<and> seen c = \<lparr>fc_client_id = utf8 (fk_client_id c), fc_client_secret = utf8 (fk_client_secret c),
        fc_client_name = utf8 (fk_client_name c), fc_redirect_uris = map utf8 (fk_redirect_uris c)\<rparr>"
proof -
  let ?j = "JArr (map client_json cs)"
  have "nesting ?j \<le> Suc 2"
    using client_json_shape(2) by (simp only: nesting.simps Suc_le_mono fold_max_le) auto
  then have n: "nesting ?j \<le> max_nesting" by (simp add: max_nesting_def)
  have "no_numbers ?j" using client_json_shape(1) by auto
  from json_decode_printed [OF this n] have d: "json_decode (json_body ?j) = Some (sanitize ?j)"
    by (simp only: json_body_def)
  have l: "decode_body decode_funnels (json_body ?j) = Inr (map seen cs)"
    unfolding decode_body_def d using decode_funnels_seen [of cs] by simp
  have "json_decode (json_text (registration_json q)) = Some (sanitize (registration_json q))"
    using json_decode_printed [OF registration_json_shape, where t = "[]"] by simp
  then show ?thesis
    using decode_client_body l decode_registration [of q] by (simp add: seen_def)
qed


section \<open>The server stays well formed\<close>

text \<open>The table of the server is well formed and every client in it has a redirect URI.\<close>

definition server_wf :: "fake_server \<Rightarrow> bool" where
  "server_wf s \<longleftrightarrow> server_fresh s \<and> (\<forall>k x. gm_get (fs_clients s) k = Some x \<longrightarrow> fk_redirect_uris x \<noteq> [])"

lemma server_wf_step:
  assumes "server_wf s" and "server_fresh (s\<lparr>fs_clients := Some (AList.update k x al), fs_next_id := n\<rparr>)"
    and "fs_clients s = Some al" and "fk_redirect_uris x \<noteq> []"
  shows "server_wf (s\<lparr>fs_clients := Some (AList.update k x al), fs_next_id := n\<rparr>)"
  using assms by (auto simp: server_wf_def update_conv' split: if_splits)

lemma register_wf:
  assumes "server_wf s"
  shows "\<exists>resp s'. serve_register now meth body s = Some (resp, s') \<and> server_wf s'
    \<and> rs_status resp \<in> {201, 400, 405} \<and> fs_issuer s' = fs_issuer s \<and> fs_next_id s \<le> fs_next_id s'"
proof (cases "meth = ''POST'' \<and> (\<exists>u us st n. decode_body decode_register_body body = Inr ((u # us, st), n))")
  case False
  then show ?thesis
    using assms by (auto simp: serve_register_def http_error_def neq_Nil_conv split: sum.splits)
next
  case True
  then obtain u us st n where b: "meth = ''POST''" "decode_body decode_register_body body = Inr ((u # us, st), n)" by blast
  have f: "server_fresh s" using assms by (simp add: server_wf_def)
  then obtain al where al: "fs_clients s = Some al" by (rule server_freshE)
  define x where "x = \<lparr>fk_client_id = ''fake-client-'' @ decimal (fs_next_id s + 1),
    fk_client_secret = ''fake-secret-'' @ decimal (fs_next_id s + 1),
    fk_client_name = n, fk_redirect_uris = u # us, fk_created_at = now\<rparr>"
  have "server_fresh (s\<lparr>fs_clients := Some (AList.update (fk_client_id x) x al), fs_next_id := fs_next_id s + 1\<rparr>)"
    by (rule fresh_insert [OF f al]) (simp add: x_def)
  then have "server_wf (s\<lparr>fs_clients := Some (AList.update (fk_client_id x) x al), fs_next_id := fs_next_id s + 1\<rparr>)"
    by (rule server_wf_step [OF assms _ al]) (simp add: x_def)
  moreover have "serve_register now meth body s = Some (\<lparr>rs_status = 201, rs_body = json_body (client_json x)\<rparr>,
      s\<lparr>fs_clients := Some (AList.update (fk_client_id x) x al), fs_next_id := fs_next_id s + 1\<rparr>)"
    using b al by (simp add: serve_register_def x_def Let_def)
  ultimately show ?thesis by simp
qed

lemma client_wf:
  assumes "server_wf s"
  shows "server_wf (snd (serve_client meth i s)) \<and> rs_status (fst (serve_client meth i s)) \<in> {200, 204, 404, 405}
    \<and> fs_issuer (snd (serve_client meth i s)) = fs_issuer s \<and> fs_next_id (snd (serve_client meth i s)) = fs_next_id s"
proof -
  have "server_wf (s\<lparr>fs_clients := gm_delete i (fs_clients s)\<rparr>)"
    using assms fresh_delete by (auto simp: server_wf_def)
  then show ?thesis
    using assms by (auto simp: serve_client_def http_error_def Let_def split: option.split)
qed

lemma edit_wf:
  assumes "server_wf s"
  shows "\<exists>resp s'. serve_edit meth i ctype body s = Some (resp, s') \<and> server_wf s'
    \<and> rs_status resp \<in> {200, 400, 404, 405} \<and> fs_issuer s' = fs_issuer s \<and> fs_next_id s' = fs_next_id s"
proof -
  have f: "server_fresh s" using assms by (simp add: server_wf_def)
  then obtain al where al: "fs_clients s = Some al" by (rule server_freshE)
  have e: "server_wf (s\<lparr>fs_clients := Some (AList.update i (edited n us x) al)\<rparr>)"
    if "map_of al i = Some x" "us \<noteq> []" for n us x
    using fresh_edit [OF f al that(1)] assms al that(2)
    by (auto simp: server_wf_def update_conv' edited_def split: if_splits)
  show ?thesis
  proof (cases "meth = ''POST''")
    case False
    then show ?thesis using assms by (simp add: serve_edit_def http_error_def)
  next
    case meth: True
    show ?thesis
    proof (cases "request_form ctype body")
      case None
      then show ?thesis using assms meth by (simp add: serve_edit_def http_error_def)
    next
      case form: (Some form)
      show ?thesis
      proof (cases "map_of al i")
        case None
        then show ?thesis using assms meth form al by (simp add: serve_edit_def http_error_def)
      next
        case (Some x)
        let ?us = "edit_uris form"
        have "server_wf (s\<lparr>fs_clients := Some (AList.update i (edited (trim_space (form_value form ''name'')) ?us x) al)\<rparr>)"
          if "?us \<noteq> []"
          by (rule e [OF Some that])
        then show ?thesis
          using assms meth form al Some by (simp add: serve_edit_def edited_def html_def Let_def)
      qed
    qed
  qed
qed



section \<open>The status of an error\<close>

text \<open>
  \<open>apiError.Status\<close> has no tag, so a member named status in the body replaces the status of the
  response in the error that is reported.
\<close>

lemma body_status_overrides:
  "err_from_response \<lparr>rs_status = 500, rs_body = ''{\"error\":\"e\",\"status\":404}''\<rparr> = ApiError 404 ''e'' []"
  by code_simp

end
