(* ===== verification/Startup.thy ===== *)
theory Startup
  imports Manager Examples
begin

text \<open>
  The start of the operator: \<open>main\<close> of cmd/main.go and \<open>SetupWithManager\<close>. What \<open>main\<close> asks of the
  manager library is a list of calls with their arguments, and the library answers each one with an error
  or none; an error ends the process with exit code 1. Flag parsing and logging are library code.
\<close>

section \<open>The calls of \<open>main\<close>\<close>

record command_flags =
  tsidpURL :: string
  resyncInterval :: duration
  watchNamespaces :: string
  metricsAddr :: string
  probeAddr :: string

definition default_flags :: command_flags where
  "default_flags =
     \<lparr>tsidpURL = ''http://127.0.0.1:8080'', resyncInterval = 600 * second, watchNamespaces = [],
      metricsAddr = '':8081'', probeAddr = '':8082''\<rparr>"

record manager_options =
  Cache :: cache_scope
  MetricsBindAddress :: string
  HealthProbeBindAddress :: string

text \<open>What \<open>SetupWithManager\<close> builds: the kind reconciled, the kind owned and the controller's name.\<close>

record controller_builder =
  For :: string
  Owns :: string
  Named :: string
  Complete :: reconciler

definition setup_with_manager :: "reconciler \<Rightarrow> controller_builder" where
  "setup_with_manager R = \<lparr>For = ''OIDCClient'', Owns = ''Secret'', Named = ''oidcclient'', Complete = R\<rparr>"

datatype setup_call =
    NewManager manager_options
  | SetupController controller_builder
  | AddHealthzCheck string
  | AddReadyzCheck string tsidp_client
  | Start

type_synonym setup_library = "setup_call list \<Rightarrow> setup_call \<Rightarrow> gerr option"

text \<open>\<open>if err := ...; err != nil { os.Exit(1) }\<close>, call by call; the result is the exit code and the calls made.\<close>

fun checked_calls :: "setup_library \<Rightarrow> setup_call list \<Rightarrow> setup_call list \<Rightarrow> int \<times> setup_call list" where
  "checked_calls lib made [] = (0, made)"
| "checked_calls lib made (c # cs) =
     (if lib made c \<noteq> None then (1, made @ [c]) else checked_calls lib (made @ [c]) cs)"

text \<open>\<open>R\<close> holds the helpers of the libraries; the interval comes from the flags.\<close>

definition main :: "setup_library \<Rightarrow> reconciler \<Rightarrow> command_flags \<Rightarrow> int \<times> setup_call list" where
  "main lib R fl = (let idp = \<lparr>BaseURL = tsidpURL fl\<rparr> in
     case watch_scope (watchNamespaces fl) of
       None \<Rightarrow> (1, [])
     | Some cacheOpts \<Rightarrow> checked_calls lib []
         [NewManager \<lparr>Cache = cacheOpts, MetricsBindAddress = metricsAddr fl,
                       HealthProbeBindAddress = probeAddr fl\<rparr>,
          SetupController (setup_with_manager (R\<lparr>ResyncInterval := resyncInterval fl\<rparr>)),
          AddHealthzCheck ''healthz'',
          AddReadyzCheck ''tsidp'' idp,
          Start])"

section \<open>What is started\<close>

lemma checked_calls_ends:
  assumes "checked_calls lib made cs = (code, t)" and "cs \<noteq> []"
  shows "\<exists>u rest. t = made @ u \<and> cs = u @ rest \<and> u \<noteq> [] \<and> (code = 0 \<longrightarrow> rest = [])
    \<and> (code = 0 \<longleftrightarrow> lib (made @ butlast u) (last u) = None)"
  using assms
proof (induction cs arbitrary: made)
  case (Cons c cs)
  consider "lib made c = None" "cs \<noteq> []" | "lib made c \<noteq> None" | "lib made c = None" "cs = []" by blast
  then show ?case
  proof cases
    case 1
    then have "checked_calls lib (made @ [c]) cs = (code, t)" using Cons.prems by simp
    from Cons.IH [OF this 1(2)] obtain u rest where u: "t = (made @ [c]) @ u" "cs = u @ rest" "u \<noteq> []"
      "code = 0 \<longrightarrow> rest = []" "code = 0 \<longleftrightarrow> lib ((made @ [c]) @ butlast u) (last u) = None"
      by (elim exE conjE) (rule that)
    have "butlast (c # u) = c # butlast u" "last (c # u) = last u" using u(3) by simp_all
    then have "code = 0 \<longleftrightarrow> lib (made @ butlast (c # u)) (last (c # u)) = None" using u(5) by simp
    then show ?thesis using u(1,2,4) by (intro exI [of _ "c # u"] exI [of _ rest] conjI) simp_all
  next
    case 2
    then have "t = made @ [c]" "code = 1" using Cons.prems(1) by simp_all
    then show ?thesis using 2 by (intro exI [of _ "[c]"] exI [of _ cs]) simp
  next
    case 3
    then have "t = made @ [c]" "code = 0" using Cons.prems(1) by simp_all
    then show ?thesis using 3 by (intro exI [of _ "[c]"] exI [of _ cs]) simp
  qed
qed simp

lemma usable_scope:
  assumes "watch_scope flag = Some sc" and "flag \<noteq> []"
  shows "\<exists>ns \<in> set (split_on (CHR '','') flag). trim_space ns \<noteq> []"
proof -
  obtain m where m: "sc = DefaultNamespaces m" "gm_keys m \<noteq> []"
    using assms by (auto simp: watch_scope_def split: option.splits if_splits)
  then obtain k where "k \<in> set (gm_keys m)" by fastforce
  then have "watches sc k" by (simp add: watches_def m(1) gm_keys_get)
  then show ?thesis using watch_scope_watches [OF assms(2)] assms(1) by auto
qed

abbreviation all_calls :: "cache_scope \<Rightarrow> reconciler \<Rightarrow> command_flags \<Rightarrow> setup_call list" where
  "all_calls sc R fl \<equiv>
     [NewManager \<lparr>Cache = sc, MetricsBindAddress = metricsAddr fl, HealthProbeBindAddress = probeAddr fl\<rparr>,
      SetupController (setup_with_manager (R\<lparr>ResyncInterval := resyncInterval fl\<rparr>)),
      AddHealthzCheck ''healthz'', AddReadyzCheck ''tsidp'' \<lparr>BaseURL = tsidpURL fl\<rparr>, Start]"

lemma main_calls:
  assumes "main lib R fl = (code, calls)" and "watch_scope (watchNamespaces fl) = Some sc"
  shows "calls \<noteq> [] \<and> (\<forall>m. NewManager m \<in> set calls \<longrightarrow> Cache m = sc)
    \<and> (Start \<in> set calls \<longrightarrow> calls = all_calls sc R fl)
    \<and> (code = 0 \<longleftrightarrow> (\<exists>v. calls = v @ [Start] \<and> lib v Start = None))"
proof -
  let ?cs = "all_calls sc R fl"
  have "checked_calls lib [] ?cs = (code, calls)" using assms by (simp add: main_def)
  from checked_calls_ends [OF this] obtain rest where e: "?cs = calls @ rest" "calls \<noteq> []" "code = 0 \<longrightarrow> rest = []"
    "code = 0 \<longleftrightarrow> lib (butlast calls) (last calls) = None" by auto
  have managers: "Cache m = sc" if "NewManager m \<in> set calls" for m
  proof -
    have "NewManager m \<in> set ?cs" unfolding e(1) using that by simp
    then show ?thesis by simp
  qed
  have started: "calls = ?cs" if "Start \<in> set calls"
  proof (cases rest rule: rev_cases)
    case (snoc r x)
    then have "butlast ?cs = calls @ r" by (simp add: e(1) butlast_append)
    then have "Start \<in> set (butlast ?cs)" using that by simp
    then show ?thesis by simp
  qed (use e(1) in simp)
  have "\<exists>v. calls = v @ [Start] \<and> lib v Start = None" if "code = 0"
  proof -
    have "calls = ?cs" using e(1,3) that by (metis append_Nil2)
    then have "calls = butlast ?cs @ [Start]" by simp
    then show ?thesis using that e(4) by (metis butlast_snoc last_snoc)
  qed
  then show ?thesis using e(2,4) managers started by auto
qed



end
