(* ===== verification/DeepCopy.thy ===== *)
theory DeepCopy
  imports Prelude
begin

text \<open>
  The deep copies of api/v1alpha1/zz_generated.deepcopy.go over an explicit memory. The informers hand out
  objects that other readers share, so a copy must not share memory with its original. A slice is nil
  or a header over an array cell, a map and a pointer are nil or an address, strings are values; a
  struct is the record of its fields. \<open>DeepCopyInto\<close> takes the struct read through \<open>in\<close> and returns the struct
  written through \<open>out\<close>. The copies of the metadata and of conditions are those of apimachinery: parameters.
\<close>

section \<open>Memory\<close>

record mem_slice =
  sl_array :: nat
  sl_offset :: nat
  sl_len :: nat
  sl_cap :: nat

text \<open>
  The structs with their references as parameters: in memory a slice is a header and a pointer an
  address; in the value of a struct they are the elements and the struct they stand for.
\<close>

record 'g go_template =
  gLabels :: 'g
  gAnnotations :: 'g

record ('s, 'p) go_spec =
  gClientName :: string
  gRedirectURIs :: 's
  gTokenEndpointAuthMethod :: string
  gGrantTypes :: 's
  gResponseTypes :: 's
  gScope :: string
  gClientURI :: string
  gLogoURI :: string
  gContacts :: 's
  gApplicationType :: string
  gSecretName :: string
  gSecretTemplate :: 'p
  gUpdatePolicy :: string
  gDeletionPolicy :: string

record 'c go_status =
  gClientID :: string
  gStatusSecretName :: string
  gIssuer :: string
  gObservedGeneration :: int
  gConditions :: 'c

record ('m, 'sp, 'st) go_object =
  gTypeMeta :: "string \<times> string"
  gObjectMeta :: 'm
  gSpec :: 'sp
  gStatus :: 'st

record ('l, 'i) go_object_list =
  gListTypeMeta :: "string \<times> string"
  gListMeta :: 'l
  gItems :: 'i

type_synonym mem_template = "nat option go_template"
type_synonym mem_spec = "(mem_slice option, nat option) go_spec"
type_synonym mem_status = "mem_slice option go_status"
type_synonym 'x mem_object = "('x, mem_spec, mem_status) go_object"
type_synonym 'x mem_list = "('x, mem_slice option) go_object_list"

text \<open>The cells; \<open>'x\<close> are the structs of apimachinery, which may have cells of their own.\<close>

datatype 'x cell =
    Strings "string list"
  | StringMap "(string \<times> string) list"
  | Conditions "'x list"
  | Objects "'x mem_object list"
  | TemplateCell mem_template
  | SpecCell mem_spec
  | StatusCell mem_status
  | ObjectCell "'x mem_object"
  | ListCell "'x mem_list"
  | LibraryCell 'x

record 'x memory =
  next_addr :: nat
  cell_at :: "nat \<Rightarrow> 'x cell option"

definition alloc :: "'x cell \<Rightarrow> 'x memory \<Rightarrow> nat \<times> 'x memory" where
  "alloc c h = (next_addr h, h\<lparr>next_addr := Suc (next_addr h), cell_at := (cell_at h)(next_addr h \<mapsto> c)\<rparr>)"

definition store :: "nat \<Rightarrow> 'x cell \<Rightarrow> 'x memory \<Rightarrow> 'x memory" where
  "store a c h = h\<lparr>cell_at := (cell_at h)(a \<mapsto> c)\<rparr>"

text \<open>What a cell holds, read at its type.\<close>

definition strings_in :: "'x cell option \<Rightarrow> string list" where
  "strings_in c = (case c of Some (Strings xs) \<Rightarrow> xs | _ \<Rightarrow> [])"

definition map_in :: "'x cell option \<Rightarrow> (string \<times> string) list" where
  "map_in c = (case c of Some (StringMap m) \<Rightarrow> m | _ \<Rightarrow> [])"

definition conditions_in :: "'x cell option \<Rightarrow> 'x list" where
  "conditions_in c = (case c of Some (Conditions xs) \<Rightarrow> xs | _ \<Rightarrow> [])"

definition objects_in :: "'x cell option \<Rightarrow> 'x mem_object list" where
  "objects_in c = (case c of Some (Objects xs) \<Rightarrow> xs | _ \<Rightarrow> [])"

text \<open>The elements of a slice; a header never leaves its array.\<close>

definition elems :: "('x cell option \<Rightarrow> 'a list) \<Rightarrow> 'x memory \<Rightarrow> mem_slice \<Rightarrow> 'a list" where
  "elems in_cell h sl = map (\<lambda>i. in_cell (cell_at h (sl_array sl)) ! (sl_offset sl + i)) [0..<sl_len sl]"

abbreviation new_slice :: "nat \<Rightarrow> nat \<Rightarrow> mem_slice" where
  "new_slice a n \<equiv> \<lparr>sl_array = a, sl_offset = 0, sl_len = n, sl_cap = n\<rparr>"

section \<open>Copying slices, maps and pointers\<close>

text \<open>\<open>if *in != nil { *out = make([]string, len(*in)); copy(*out, *in) }\<close>\<close>

definition go_copy :: "'a list \<Rightarrow> 'a list \<Rightarrow> 'a list" where
  "go_copy dst src = take (length dst) src @ drop (length src) dst"

definition copy_strings :: "mem_slice option \<Rightarrow> 'x memory \<Rightarrow> mem_slice option \<times> 'x memory" where
  "copy_strings s h = (case s of
       None \<Rightarrow> (None, h)
     | Some sl \<Rightarrow>
         (let (a, h1) = alloc (Strings (replicate (sl_len sl) [])) h
          in (Some (new_slice a (sl_len sl)),
              store a (Strings (go_copy (strings_in (cell_at h1 a)) (elems strings_in h1 sl))) h1)))"

text \<open>\<open>*out = make(map[string]string, len(*in)); for key, val := range *in { (*out)[key] = val }\<close>; a range visits each key once.\<close>

definition copy_map :: "nat option \<Rightarrow> 'x memory \<Rightarrow> nat option \<times> 'x memory" where
  "copy_map m h = (case m of
       None \<Rightarrow> (None, h)
     | Some a \<Rightarrow>
         (let (b, h1) = alloc (StringMap []) h
          in (Some b, fold (\<lambda>(k, v) h. store b (StringMap (AList.update k v (map_in (cell_at h b)))) h)
                        (AList.clearjunk (map_in (cell_at h1 a))) h1)))"

text \<open>\<open>*out = make([]T, len(*in)); for i := range *in { (*in)[i].DeepCopyInto(&(*out)[i]) }\<close>\<close>

definition copy_array ::
  "('a list \<Rightarrow> 'x cell) \<Rightarrow> ('x cell option \<Rightarrow> 'a list) \<Rightarrow> 'a \<Rightarrow> ('a \<Rightarrow> 'x memory \<Rightarrow> 'a \<times> 'x memory) \<Rightarrow>
     mem_slice option \<Rightarrow> 'x memory \<Rightarrow> mem_slice option \<times> 'x memory" where
  "copy_array to_cell in_cell zero copy_into s h = (case s of
       None \<Rightarrow> (None, h)
     | Some sl \<Rightarrow>
         (let (a, h1) = alloc (to_cell (replicate (sl_len sl) zero)) h
          in (Some (new_slice a (sl_len sl)),
              fold (\<lambda>i h. let (y, h') = copy_into (elems in_cell h sl ! i) h
                          in store a (to_cell ((in_cell (cell_at h' a))[i := y])) h')
                [0..<sl_len sl] h1)))"

text \<open>\<open>if in == nil { return nil }; out := new(T); in.DeepCopyInto(out); return out\<close>\<close>

definition copy_pointer ::
  "('a \<Rightarrow> 'x cell) \<Rightarrow> ('x cell option \<Rightarrow> 'a) \<Rightarrow> 'a \<Rightarrow> ('a \<Rightarrow> 'x memory \<Rightarrow> 'a \<times> 'x memory) \<Rightarrow>
     nat option \<Rightarrow> 'x memory \<Rightarrow> nat option \<times> 'x memory" where
  "copy_pointer to_cell in_cell zero copy_into p h = (case p of
       None \<Rightarrow> (None, h)
     | Some a \<Rightarrow>
         (let (b, h1) = alloc (to_cell zero) h;
              (y, h2) = copy_into (in_cell (cell_at h1 a)) h1
          in (Some b, store b (to_cell y) h2)))"

section \<open>The copies of the API types\<close>

definition zero_template :: mem_template where
  "zero_template = \<lparr>gLabels = None, gAnnotations = None\<rparr>"

definition template_in :: "'x cell option \<Rightarrow> mem_template" where
  "template_in c = (case c of Some (TemplateCell t) \<Rightarrow> t | _ \<Rightarrow> zero_template)"

definition template_copy_into :: "mem_template \<Rightarrow> 'x memory \<Rightarrow> mem_template \<times> 'x memory" where
  "template_copy_into t h =
     (let (labels, h1) = copy_map (gLabels t) h;
          (annotations, h2) = copy_map (gAnnotations t) h1
      in (t\<lparr>gLabels := labels, gAnnotations := annotations\<rparr>, h2))"

definition template_deep_copy :: "nat option \<Rightarrow> 'x memory \<Rightarrow> nat option \<times> 'x memory" where
  "template_deep_copy = copy_pointer TemplateCell template_in zero_template template_copy_into"

definition zero_spec :: mem_spec where
  "zero_spec = \<lparr>gClientName = [], gRedirectURIs = None, gTokenEndpointAuthMethod = [], gGrantTypes = None,
     gResponseTypes = None, gScope = [], gClientURI = [], gLogoURI = [], gContacts = None,
     gApplicationType = [], gSecretName = [], gSecretTemplate = None, gUpdatePolicy = [], gDeletionPolicy = []\<rparr>"

definition spec_in :: "'x cell option \<Rightarrow> mem_spec" where
  "spec_in c = (case c of Some (SpecCell s) \<Rightarrow> s | _ \<Rightarrow> zero_spec)"

definition spec_copy_into :: "mem_spec \<Rightarrow> 'x memory \<Rightarrow> mem_spec \<times> 'x memory" where
  "spec_copy_into s h =
     (let (redirectURIs, h1) = copy_strings (gRedirectURIs s) h;
          (grantTypes, h2) = copy_strings (gGrantTypes s) h1;
          (responseTypes, h3) = copy_strings (gResponseTypes s) h2;
          (contacts, h4) = copy_strings (gContacts s) h3;
          (secretTemplate, h5) =
            copy_pointer TemplateCell template_in zero_template template_copy_into (gSecretTemplate s) h4
      in (s\<lparr>gRedirectURIs := redirectURIs, gGrantTypes := grantTypes, gResponseTypes := responseTypes,
            gContacts := contacts, gSecretTemplate := secretTemplate\<rparr>, h5))"

definition spec_deep_copy :: "nat option \<Rightarrow> 'x memory \<Rightarrow> nat option \<times> 'x memory" where
  "spec_deep_copy = copy_pointer SpecCell spec_in zero_spec spec_copy_into"

text \<open>The copies apimachinery brings for its own structs, and their zero values.\<close>

record 'x apimachinery =
  copy_object_meta :: "'x \<Rightarrow> 'x memory \<Rightarrow> 'x \<times> 'x memory"
  copy_list_meta :: "'x \<Rightarrow> 'x memory \<Rightarrow> 'x \<times> 'x memory"
  copy_condition :: "'x \<Rightarrow> 'x memory \<Rightarrow> 'x \<times> 'x memory"
  zero_object_meta :: 'x
  zero_list_meta :: 'x
  zero_condition :: 'x

definition zero_status :: mem_status where
  "zero_status = \<lparr>gClientID = [], gStatusSecretName = [], gIssuer = [], gObservedGeneration = 0, gConditions = None\<rparr>"

definition status_in :: "'x cell option \<Rightarrow> mem_status" where
  "status_in c = (case c of Some (StatusCell s) \<Rightarrow> s | _ \<Rightarrow> zero_status)"

definition status_copy_into :: "'x apimachinery \<Rightarrow> mem_status \<Rightarrow> 'x memory \<Rightarrow> mem_status \<times> 'x memory" where
  "status_copy_into L s h =
     (let (conditions, h1) =
            copy_array Conditions conditions_in (zero_condition L) (copy_condition L) (gConditions s) h
      in (s\<lparr>gConditions := conditions\<rparr>, h1))"

definition status_deep_copy :: "'x apimachinery \<Rightarrow> nat option \<Rightarrow> 'x memory \<Rightarrow> nat option \<times> 'x memory" where
  "status_deep_copy L = copy_pointer StatusCell status_in zero_status (status_copy_into L)"

definition zero_object :: "'x apimachinery \<Rightarrow> 'x mem_object" where
  "zero_object L = \<lparr>gTypeMeta = ([], []), gObjectMeta = zero_object_meta L, gSpec = zero_spec, gStatus = zero_status\<rparr>"

definition object_in :: "'x apimachinery \<Rightarrow> 'x cell option \<Rightarrow> 'x mem_object" where
  "object_in L c = (case c of Some (ObjectCell x) \<Rightarrow> x | _ \<Rightarrow> zero_object L)"

definition object_copy_into :: "'x apimachinery \<Rightarrow> 'x mem_object \<Rightarrow> 'x memory \<Rightarrow> 'x mem_object \<times> 'x memory" where
  "object_copy_into L x h =
     (let (m, h1) = copy_object_meta L (gObjectMeta x) h;
          (sp, h2) = spec_copy_into (gSpec x) h1;
          (st, h3) = status_copy_into L (gStatus x) h2
      in (x\<lparr>gObjectMeta := m, gSpec := sp, gStatus := st\<rparr>, h3))"

definition object_deep_copy :: "'x apimachinery \<Rightarrow> nat option \<Rightarrow> 'x memory \<Rightarrow> nat option \<times> 'x memory" where
  "object_deep_copy L = copy_pointer ObjectCell (object_in L) (zero_object L) (object_copy_into L)"

definition zero_list :: "'x apimachinery \<Rightarrow> 'x mem_list" where
  "zero_list L = \<lparr>gListTypeMeta = ([], []), gListMeta = zero_list_meta L, gItems = None\<rparr>"

definition list_in :: "'x apimachinery \<Rightarrow> 'x cell option \<Rightarrow> 'x mem_list" where
  "list_in L c = (case c of Some (ListCell x) \<Rightarrow> x | _ \<Rightarrow> zero_list L)"

definition list_copy_into :: "'x apimachinery \<Rightarrow> 'x mem_list \<Rightarrow> 'x memory \<Rightarrow> 'x mem_list \<times> 'x memory" where
  "list_copy_into L x h =
     (let (m, h1) = copy_list_meta L (gListMeta x) h;
          (items, h2) = copy_array Objects objects_in (zero_object L) (object_copy_into L) (gItems x) h1
      in (x\<lparr>gListMeta := m, gItems := items\<rparr>, h2))"

definition list_deep_copy :: "'x apimachinery \<Rightarrow> nat option \<Rightarrow> 'x memory \<Rightarrow> nat option \<times> 'x memory" where
  "list_deep_copy L = copy_pointer ListCell (list_in L) (zero_list L) (list_copy_into L)"

text \<open>\<open>DeepCopyObject\<close>: the interface value is nil when the pointer is, never an interface around nil.\<close>

datatype runtime_object = OIDCClientObject nat | OIDCClientListObject nat

definition object_deep_copy_object ::
  "'x apimachinery \<Rightarrow> nat option \<Rightarrow> 'x memory \<Rightarrow> runtime_object option \<times> 'x memory" where
  "object_deep_copy_object L p h =
     (let (c, h') = object_deep_copy L p h
      in (case c of Some c \<Rightarrow> Some (OIDCClientObject c) | None \<Rightarrow> None, h'))"

definition list_deep_copy_object ::
  "'x apimachinery \<Rightarrow> nat option \<Rightarrow> 'x memory \<Rightarrow> runtime_object option \<times> 'x memory" where
  "list_deep_copy_object L p h =
     (let (c, h') = list_deep_copy L p h
      in (case c of Some c \<Rightarrow> Some (OIDCClientListObject c) | None \<Rightarrow> None, h'))"

end
