(* ===== verification/Copies.thy ===== *)
theory Copies
  imports DeepCopy
begin

text \<open>
  What a deep copy owes its caller: the locale \<open>copier\<close>. A copy has the value of its original, lives in cells
  that did not exist before, and changes no cell that did. The copies of \<open>DeepCopy\<close> meet it, those over
  structs of apimachinery when the library's own copies do.
\<close>

section \<open>The contract\<close>

definition extends :: "'x memory \<Rightarrow> 'x memory \<Rightarrow> bool" where
  "extends h h' \<longleftrightarrow> next_addr h \<le> next_addr h' \<and> (\<forall>a < next_addr h. cell_at h' a = cell_at h a)"

definition agree :: "nat set \<Rightarrow> 'x memory \<Rightarrow> 'x memory \<Rightarrow> bool" where
  "agree A h h' \<longleftrightarrow> (\<forall>a \<in> A. cell_at h' a = cell_at h a)"

abbreviation old :: "'x memory \<Rightarrow> nat set" where
  "old h \<equiv> {..<next_addr h}"

abbreviation fresh :: "'x memory \<Rightarrow> 'x memory \<Rightarrow> nat set" where
  "fresh h h' \<equiv> {next_addr h..<next_addr h'}"

lemma extends_refl [simp]: "extends h h"
  by (simp add: extends_def)

lemma extends_trans [trans]: "extends h h1 \<Longrightarrow> extends h1 h2 \<Longrightarrow> extends h h2"
  by (simp add: extends_def)

lemma extends_agree: "extends h h' \<Longrightarrow> A \<subseteq> old h \<Longrightarrow> agree A h h'"
  by (auto simp: extends_def agree_def)

lemma extends_next: "extends h h' \<Longrightarrow> next_addr h \<le> next_addr h'"
  by (simp add: extends_def)

lemma allocE:
  obtains h1 where "alloc c h = (next_addr h, h1)" and "extends h h1" and "next_addr h1 = Suc (next_addr h)"
    and "cell_at h1 (next_addr h) = Some c" and "\<And>a. a \<noteq> next_addr h \<Longrightarrow> cell_at h1 a = cell_at h a"
  using that by (simp add: alloc_def extends_def)

lemma store_simps [simp]:
  "next_addr (store a c h) = next_addr h" "cell_at (store a c h) b = (if b = a then Some c else cell_at h b)"
  by (simp_all add: store_def)

lemma extends_store: "extends h h' \<Longrightarrow> next_addr h \<le> a \<Longrightarrow> extends h (store a c h')"
  by (auto simp: extends_def)

locale copier =
  fixes copy :: "'a \<Rightarrow> 'x memory \<Rightarrow> 'a \<times> 'x memory"
    and reach :: "'x memory \<Rightarrow> 'a \<Rightarrow> nat set"
    and val :: "'x memory \<Rightarrow> 'a \<Rightarrow> 'v"
  assumes copied: "reach h x \<subseteq> old h \<Longrightarrow> copy x h = (y, h') \<Longrightarrow>
      extends h h' \<and> reach h' y \<subseteq> fresh h h' \<and> val h' y = val h x"
    and framed: "agree (reach h x) h h' \<Longrightarrow> reach h' x = reach h x \<and> val h' x = val h x"
begin

lemma kept: "extends h h' \<Longrightarrow> reach h x \<subseteq> old h \<Longrightarrow> reach h' x = reach h x \<and> val h' x = val h x"
  by (rule framed) (rule extends_agree)

text \<open>A copy made later, after other copies.\<close>

lemma copied_later:
  assumes "extends h h1" and "reach h x \<subseteq> old h" and "copy x h1 = (y, h2)"
  shows "extends h1 h2 \<and> reach h2 y \<subseteq> fresh h1 h2 \<and> val h2 y = val h x"
proof -
  have k: "reach h1 x = reach h x \<and> val h1 x = val h x" by (rule kept [OF assms(1,2)])
  then have "reach h1 x \<subseteq> old h1" using assms(2) extends_next [OF assms(1)] by auto
  then show ?thesis using copied [OF _ assms(3)] k by simp
qed

text \<open>
  Isolation: whatever is written through the copy, or to anything made after it, the original keeps its
  value; and whatever is written to the original or to anything that existed before, the copy keeps its own.
\<close>

lemma isolated:
  assumes "reach h x \<subseteq> old h" and "copy x h = (y, h')"
  shows "val h' y = val h x \<and> reach h' y \<inter> old h = {} \<and> (agree (old h) h' h'' \<longrightarrow> val h'' x = val h x)
    \<and> (agree (- old h) h' h'' \<longrightarrow> val h'' y = val h x)"
proof -
  have c: "extends h h'" "reach h' y \<subseteq> fresh h h'" "val h' y = val h x" using copied [OF assms] by simp_all
  have "val h'' x = val h x" if "agree (old h) h' h''"
  proof -
    have "agree (reach h x) h h''" using that c(1) assms(1) by (auto simp: agree_def extends_def subset_iff)
    then show ?thesis using framed by blast
  qed
  moreover have "val h'' y = val h x" if "agree (- old h) h' h''"
  proof -
    have "agree (reach h' y) h' h''" using that c(2) by (auto simp: agree_def subset_iff)
    then show ?thesis using framed c(3) by metis
  qed
  ultimately show ?thesis using c(2,3) by (auto simp: subset_iff)
qed

end

section \<open>Copies put together\<close>

text \<open>Two copies, one after the other.\<close>

definition copy_pair where
  "copy_pair c1 c2 = (\<lambda>(x, z) h. let (y, h1) = c1 x h; (u, h2) = c2 z h1 in ((y, u), h2))"

lemma agree_mono: "agree A h h' \<Longrightarrow> B \<subseteq> A \<Longrightarrow> agree B h h'"
  by (auto simp: agree_def)

lemma fresh_old: "extends h h1 \<Longrightarrow> A \<subseteq> fresh h h1 \<Longrightarrow> A \<subseteq> old h1"
  by auto

lemma copier_pair:
  assumes c1: "copier c1 r1 v1" and c2: "copier c2 r2 v2"
  shows "copier (copy_pair c1 c2) (\<lambda>h (x, z). r1 h x \<union> r2 h z) (\<lambda>h (x, z). (v1 h x, v2 h z))"
proof
  fix h p q h'
  assume r: "(case p of (x, z) \<Rightarrow> r1 h x \<union> r2 h z) \<subseteq> old h" and c: "copy_pair c1 c2 p h = (q, h')"
  obtain x z where p: "p = (x, z)" by (cases p)
  obtain y h1 where y: "c1 x h = (y, h1)" by (cases "c1 x h")
  obtain u h2 where u: "c2 z h1 = (u, h2)" by (cases "c2 z h1")
  have q: "q = (y, u)" "h' = h2" using c by (simp_all add: p copy_pair_def y u)
  have r: "r1 h x \<subseteq> old h" "r2 h z \<subseteq> old h" using r by (simp_all add: p)
  have 1: "extends h h1" "r1 h1 y \<subseteq> fresh h h1" "v1 h1 y = v1 h x"
    using copier.copied [OF c1 r(1) y] by simp_all
  have 2: "extends h1 h2" "r2 h2 u \<subseteq> fresh h1 h2" "v2 h2 u = v2 h z"
    using copier.copied_later [OF c2 1(1) r(2) u] by simp_all
  have 3: "r1 h2 y = r1 h1 y \<and> v1 h2 y = v1 h1 y"
    by (rule copier.kept [OF c1 2(1) fresh_old [OF 1(1,2)]])
  have "fresh h h1 \<subseteq> fresh h h2" "fresh h1 h2 \<subseteq> fresh h h2"
    using extends_next [OF 1(1)] extends_next [OF 2(1)] by auto
  then have "r1 h2 y \<union> r2 h2 u \<subseteq> fresh h h2" using 1(2) 2(2) 3 by blast
  then show "extends h h' \<and> (case q of (x, z) \<Rightarrow> r1 h' x \<union> r2 h' z) \<subseteq> fresh h h'
      \<and> (case q of (x, z) \<Rightarrow> (v1 h' x, v2 h' z)) = (case p of (x, z) \<Rightarrow> (v1 h x, v2 h z))"
    using extends_trans [OF 1(1) 2(1)] 1(3) 2(3) 3 by (simp add: p q)
next
  fix h p h'
  assume a: "agree (case p of (x, z) \<Rightarrow> r1 h x \<union> r2 h z) h h'"
  obtain x z where p: "p = (x, z)" by (cases p)
  have "agree (r1 h x) h h'" "agree (r2 h z) h h'" using a agree_mono by (auto simp: p)
  then show "(case p of (x, z) \<Rightarrow> r1 h' x \<union> r2 h' z) = (case p of (x, z) \<Rightarrow> r1 h x \<union> r2 h z)
      \<and> (case p of (x, z) \<Rightarrow> (v1 h' x, v2 h' z)) = (case p of (x, z) \<Rightarrow> (v1 h x, v2 h z))"
    using copier.framed [OF c1] copier.framed [OF c2] by (simp add: p)
qed

text \<open>A struct whose fields \<open>get\<close> reads are copied and written back by \<open>put\<close>; \<open>mk\<close> is its value.\<close>

lemma copier_fields:
  assumes c: "copier c r v"
    and copy: "\<And>s h. copy s h = (let (y, h') = c (get s) h in (put y s, h'))"
    and get: "\<And>y s. get (put y s) = y" and mk: "\<And>y s u. mk (put y s) u = mk s u"
  shows "copier copy (\<lambda>h s. r h (get s)) (\<lambda>h s. mk s (v h (get s)))"
proof
  fix h s t h'
  assume r: "r h (get s) \<subseteq> old h" and e: "copy s h = (t, h')"
  obtain y where y: "c (get s) h = (y, h')" "t = put y s"
    using e by (auto simp: copy split: prod.splits)
  show "extends h h' \<and> r h' (get t) \<subseteq> fresh h h' \<and> mk t (v h' (get t)) = mk s (v h (get s))"
    using copier.copied [OF c r y(1)] by (simp add: y(2) get mk)
next
  fix h s h'
  assume "agree (r h (get s)) h h'"
  then show "r h' (get s) = r h (get s) \<and> mk s (v h' (get s)) = mk s (v h (get s))"
    using copier.framed [OF c] by simp
qed

section \<open>Slices of strings and maps\<close>

definition reach_strings :: "'x memory \<Rightarrow> mem_slice option \<Rightarrow> nat set" where
  "reach_strings h s = (case s of None \<Rightarrow> {} | Some sl \<Rightarrow> {sl_array sl})"

definition val_strings :: "'x memory \<Rightarrow> mem_slice option \<Rightarrow> string list option" where
  "val_strings h s = map_option (elems strings_in h) s"

lemma go_copy_full [simp]: "length dst = length src \<Longrightarrow> go_copy dst src = src"
  by (simp add: go_copy_def)

lemma length_elems [simp]: "length (elems f h sl) = sl_len sl"
  by (simp add: elems_def)

lemma elems_new: "f (cell_at h a) = xs \<Longrightarrow> length xs = n \<Longrightarrow> elems f h (new_slice a n) = xs"
  by (auto simp: elems_def intro: nth_equalityI)

lemma elems_cong: "cell_at h' (sl_array sl) = cell_at h (sl_array sl) \<Longrightarrow> elems f h' sl = elems f h sl"
  by (simp add: elems_def)

lemma copier_strings: "copier copy_strings reach_strings val_strings"
proof
  fix h :: "'x memory" and s t h'
  assume r: "reach_strings h s \<subseteq> old h" and c: "copy_strings s h = (t, h')"
  show "extends h h' \<and> reach_strings h' t \<subseteq> fresh h h' \<and> val_strings h' t = val_strings h s"
  proof (cases s)
    case None
    then show ?thesis using c by (simp add: copy_strings_def reach_strings_def val_strings_def)
  next
    case (Some sl)
    let ?a = "next_addr h" and ?xs = "elems strings_in h sl"
    obtain h1 where al: "alloc (Strings (replicate (sl_len sl) [])) h = (?a, h1)" "extends h h1" "next_addr h1 = Suc ?a"
      "cell_at h1 ?a = Some (Strings (replicate (sl_len sl) []))" "\<And>b. b \<noteq> ?a \<Longrightarrow> cell_at h1 b = cell_at h b"
      by (rule allocE [of "Strings (replicate (sl_len sl) [])" h]) (rule that)
    have "elems strings_in h1 sl = ?xs"
      using r by (intro elems_cong al(5)) (simp add: Some reach_strings_def)
    then have t: "t = Some (new_slice ?a (sl_len sl))" "h' = store ?a (Strings ?xs) h1"
      using c by (simp_all add: Some copy_strings_def al(1,4) strings_in_def)
    have "elems strings_in h' (new_slice ?a (sl_len sl)) = ?xs"
      by (rule elems_new) (simp_all add: t(2) strings_in_def)
    moreover have "extends h h'" unfolding t(2) by (rule extends_store [OF al(2)]) simp
    moreover have "next_addr h' = Suc ?a" by (simp add: t(2) al(3))
    ultimately show ?thesis by (simp add: Some t reach_strings_def val_strings_def)
  qed
next
  fix h h' :: "'x memory" and s
  assume "agree (reach_strings h s) h h'"
  then show "reach_strings h' s = reach_strings h s \<and> val_strings h' s = val_strings h s"
    by (auto simp: agree_def reach_strings_def val_strings_def elems_def split: option.splits)
qed

definition reach_map :: "'x memory \<Rightarrow> nat option \<Rightarrow> nat set" where
  "reach_map h m = set_option m"

definition val_map :: "'x memory \<Rightarrow> nat option \<Rightarrow> (string \<rightharpoonup> string) option" where
  "val_map h m = map_option (\<lambda>a. map_of (map_in (cell_at h a))) m"

lemma map_loop:
  "cell_at h b = Some (StringMap m) \<Longrightarrow>
   \<exists>m'. fold (\<lambda>(k, v) h. store b (StringMap (AList.update k v (map_in (cell_at h b)))) h) es h
      = store b (StringMap m') h \<and> map_of m' = map_of (rev es @ m)"
proof (induction es arbitrary: h m)
  case Nil
  then have "store b (StringMap m) h = h" by (cases h) (simp add: store_def fun_upd_idem)
  then show ?case by (intro exI [of _ m]) simp
next
  case (Cons e es)
  obtain k v where e: "e = (k, v)" by (cases e)
  let ?h = "store b (StringMap (AList.update k v m)) h"
  have "cell_at ?h b = Some (StringMap (AList.update k v m))" by simp
  from Cons.IH [OF this] obtain m' where
    "fold (\<lambda>(k, v) h. store b (StringMap (AList.update k v (map_in (cell_at h b)))) h) es ?h = store b (StringMap m') ?h"
    "map_of m' = map_of (rev es @ AList.update k v m)" by blast
  then show ?case
    using Cons.prems by (intro exI [of _ m']) (simp add: e map_in_def store_def update_conv' map_add_def)
qed

lemma map_of_rev_distinct: "distinct (map fst es) \<Longrightarrow> map_of (rev es) = map_of es"
  by (rule map_of_eqI) (auto simp: rev_map [symmetric])

lemma copier_map: "copier copy_map reach_map val_map"
proof
  fix h :: "'x memory" and m n h'
  assume r: "reach_map h m \<subseteq> old h" and c: "copy_map m h = (n, h')"
  show "extends h h' \<and> reach_map h' n \<subseteq> fresh h h' \<and> val_map h' n = val_map h m"
  proof (cases m)
    case None
    then show ?thesis using c by (simp add: copy_map_def reach_map_def val_map_def)
  next
    case (Some a)
    let ?b = "next_addr h" and ?es = "AList.clearjunk (map_in (cell_at h a))"
    obtain h1 where al: "alloc (StringMap []) h = (?b, h1)" "extends h h1" "next_addr h1 = Suc ?b"
      "cell_at h1 ?b = Some (StringMap [])" "\<And>c. c \<noteq> ?b \<Longrightarrow> cell_at h1 c = cell_at h c"
      by (rule allocE [of "StringMap []" h]) (rule that)
    have "cell_at h1 a = cell_at h a" using r by (intro al(5)) (simp add: Some reach_map_def)
    then have n: "n = Some ?b"
      "h' = fold (\<lambda>(k, v) h. store ?b (StringMap (AList.update k v (map_in (cell_at h ?b)))) h) ?es h1"
      using c by (simp_all add: Some copy_map_def al(1))
    obtain m' where m': "h' = store ?b (StringMap m') h1" "map_of m' = map_of (rev ?es @ [])"
      using map_loop [OF al(4), of ?es] n(2) by blast
    have "map_of m' = map_of (map_in (cell_at h a))"
      using m'(2) map_of_rev_distinct [OF distinct_clearjunk] by (simp add: map_of_clearjunk)
    moreover have "extends h h'" unfolding m'(1) by (rule extends_store [OF al(2)]) simp
    moreover have "next_addr h' = Suc ?b" by (simp add: m'(1) al(3))
    ultimately show ?thesis
      using m'(1) by (simp add: Some n(1) reach_map_def val_map_def) (simp add: map_in_def)
  qed
next
  fix h h' :: "'x memory" and m
  assume "agree (reach_map h m) h h'"
  then show "reach_map h' m = reach_map h m \<and> val_map h' m = val_map h m"
    by (cases m) (auto simp: agree_def reach_map_def val_map_def)
qed

section \<open>Pointers\<close>

definition reach_pointer :: "('x cell option \<Rightarrow> 'a) \<Rightarrow> ('x memory \<Rightarrow> 'a \<Rightarrow> nat set) \<Rightarrow> 'x memory \<Rightarrow> nat option \<Rightarrow> nat set" where
  "reach_pointer in_cell r h p = (case p of None \<Rightarrow> {} | Some a \<Rightarrow> insert a (r h (in_cell (cell_at h a))))"

definition val_pointer :: "('x cell option \<Rightarrow> 'a) \<Rightarrow> ('x memory \<Rightarrow> 'a \<Rightarrow> 'v) \<Rightarrow> 'x memory \<Rightarrow> nat option \<Rightarrow> 'v option" where
  "val_pointer in_cell v h p = map_option (\<lambda>a. v h (in_cell (cell_at h a))) p"

lemma copier_pointer:
  assumes c: "copier c r v" and cell: "\<And>y. in_cell (Some (to_cell y)) = y"
  shows "copier (copy_pointer to_cell in_cell zero c) (reach_pointer in_cell r) (val_pointer in_cell v)"
proof
  fix h p q h'
  assume s: "reach_pointer in_cell r h p \<subseteq> old h" and e: "copy_pointer to_cell in_cell zero c p h = (q, h')"
  show "extends h h' \<and> reach_pointer in_cell r h' q \<subseteq> fresh h h'
      \<and> val_pointer in_cell v h' q = val_pointer in_cell v h p"
  proof (cases p)
    case None
    then show ?thesis using e by (simp add: copy_pointer_def reach_pointer_def val_pointer_def)
  next
    case (Some a)
    let ?b = "next_addr h" and ?x = "in_cell (cell_at h a)"
    obtain h1 where al: "alloc (to_cell zero) h = (?b, h1)" "extends h h1" "next_addr h1 = Suc ?b"
      "\<And>d. d \<noteq> ?b \<Longrightarrow> cell_at h1 d = cell_at h d"
      by (rule allocE [of "to_cell zero" h]) (rule that)
    obtain y h2 where y: "c ?x h1 = (y, h2)" by (cases "c ?x h1")
    have x: "a < ?b" "r h ?x \<subseteq> old h" using s by (simp_all add: Some reach_pointer_def)
    have "cell_at h1 a = cell_at h a" using x(1) by (intro al(4)) simp
    then have q: "q = Some ?b" "h' = store ?b (to_cell y) h2"
      using e by (simp_all add: Some copy_pointer_def al(1) y)
    have 1: "extends h1 h2" "r h2 y \<subseteq> fresh h1 h2" "v h2 y = v h ?x"
      using copier.copied_later [OF c al(2) x(2) y] by simp_all
    have "agree (r h2 y) h2 h'"
      using 1(2) al(3) by (auto simp: agree_def q(2))
    then have 2: "r h' y = r h2 y" "v h' y = v h2 y" using copier.framed [OF c] by blast+
    have cy: "in_cell (cell_at h' ?b) = y" by (simp add: q(2) cell)
    have "extends h h2" by (rule extends_trans [OF al(2) 1(1)])
    then have "extends h h'" unfolding q(2) by (rule extends_store) simp
    moreover have "insert ?b (r h' y) \<subseteq> fresh h h'"
      using 1(2) 2(1) al(3) extends_next [OF 1(1)] by (auto simp: q(2))
    ultimately show ?thesis
      using 1(3) 2(2) by (simp add: Some q(1) reach_pointer_def val_pointer_def cy)
  qed
next
  fix h h' p
  assume a: "agree (reach_pointer in_cell r h p) h h'"
  show "reach_pointer in_cell r h' p = reach_pointer in_cell r h p
      \<and> val_pointer in_cell v h' p = val_pointer in_cell v h p"
  proof (cases p)
    case (Some b)
    have "cell_at h' b = cell_at h b" "agree (r h (in_cell (cell_at h b))) h h'"
      using a by (simp_all add: Some reach_pointer_def agree_def)
    then show ?thesis
      using copier.framed [OF c] by (simp add: Some reach_pointer_def val_pointer_def)
  qed (simp add: reach_pointer_def val_pointer_def)
qed

section \<open>Slices of structs\<close>

definition reach_array ::
  "('x cell option \<Rightarrow> 'a list) \<Rightarrow> ('x memory \<Rightarrow> 'a \<Rightarrow> nat set) \<Rightarrow> 'x memory \<Rightarrow> mem_slice option \<Rightarrow> nat set" where
  "reach_array in_cell r h s = (case s of None \<Rightarrow> {}
     | Some sl \<Rightarrow> insert (sl_array sl) (\<Union> (r h ` set (elems in_cell h sl))))"

definition val_array ::
  "('x cell option \<Rightarrow> 'a list) \<Rightarrow> ('x memory \<Rightarrow> 'a \<Rightarrow> 'v) \<Rightarrow> 'x memory \<Rightarrow> mem_slice option \<Rightarrow> 'v list option" where
  "val_array in_cell v h s = map_option (\<lambda>sl. map (v h) (elems in_cell h sl)) s"

lemma array_loop:
  fixes in_cell :: "'x cell option \<Rightarrow> 'a list"
  assumes c: "copier c r v" and cell: "\<And>xs. in_cell (Some (to_cell xs)) = xs"
    and h: "sl_array sl < next_addr h" "\<And>x. x \<in> set (elems in_cell h sl) \<Longrightarrow> r h x \<subseteq> old h"
    and h1: "extends h h1" "next_addr h1 = Suc (next_addr h)" "length (in_cell (cell_at h1 (next_addr h))) = sl_len sl"
  defines "step \<equiv> \<lambda>i g. let (y, g') = c (elems in_cell g sl ! i) g
    in store (next_addr h) (to_cell ((in_cell (cell_at g' (next_addr h)))[i := y])) g'"
  shows "n \<le> sl_len sl \<Longrightarrow> \<exists>ys. let g = fold step [0..<n] h1 in extends h g \<and> Suc (next_addr h) \<le> next_addr g
    \<and> in_cell (cell_at g (next_addr h)) = ys \<and> length ys = sl_len sl
    \<and> (\<forall>i < n. r g (ys ! i) \<subseteq> {Suc (next_addr h)..<next_addr g} \<and> v g (ys ! i) = v h (elems in_cell h sl ! i))"
proof (induction n)
  case 0
  then show ?case using h1 by (simp add: Let_def)
next
  case (Suc n)
  let ?a = "next_addr h" and ?g = "fold step [0..<n] h1"
  from Suc obtain ys where g: "extends h ?g" "Suc ?a \<le> next_addr ?g" "in_cell (cell_at ?g ?a) = ys" "length ys = sl_len sl"
    and ys: "\<And>i. i < n \<Longrightarrow> r ?g (ys ! i) \<subseteq> {Suc ?a..<next_addr ?g} \<and> v ?g (ys ! i) = v h (elems in_cell h sl ! i)"
    by (auto simp: Let_def)
  have n: "n < sl_len sl" using Suc.prems by simp
  let ?x = "elems in_cell h sl ! n"
  have "cell_at ?g (sl_array sl) = cell_at h (sl_array sl)" using g(1) h(1) by (simp add: extends_def)
  then have e: "elems in_cell ?g sl = elems in_cell h sl" by (rule elems_cong)
  obtain y g' where y: "c ?x ?g = (y, g')" by (cases "c ?x ?g")
  have "?x \<in> set (elems in_cell h sl)" using n by simp
  then have x: "r h ?x \<subseteq> old h" by (rule h(2))
  have 1: "extends ?g g'" "r g' y \<subseteq> fresh ?g g'" "v g' y = v h ?x"
    using copier.copied_later [OF c g(1) x y] by simp_all
  have "cell_at g' ?a = cell_at ?g ?a" using 1(1) g(2) by (simp add: extends_def)
  then have ya: "in_cell (cell_at g' ?a) = ys" using g(3) by simp
  have st: "step n g = (let (y, g') = c (elems in_cell g sl ! n) g
      in store ?a (to_cell ((in_cell (cell_at g' ?a))[n := y])) g')" for g
    by (simp only: step_def)
  have "fold step [0..<Suc n] h1 = step n ?g" by simp
  also have "\<dots> = store ?a (to_cell (ys[n := y])) g'"
    unfolding st e y by (simp add: ya)
  finally have s: "fold step [0..<Suc n] h1 = store ?a (to_cell (ys[n := y])) g'" .
  let ?g2 = "store ?a (to_cell (ys[n := y])) g'"
  have nx: "next_addr ?g \<le> next_addr g'" by (rule extends_next [OF 1(1)])
  have keep: "r ?g2 z = r g' z \<and> v ?g2 z = v g' z" if "?a \<notin> r g' z" for z
    using that by (intro copier.framed [OF c]) (auto simp: agree_def)
  have new: "r ?g2 y \<subseteq> {Suc ?a..<next_addr ?g2} \<and> v ?g2 y = v h ?x"
  proof -
    have a: "?a \<notin> r g' y" using 1(2) g(2) by auto
    have "fresh ?g g' \<subseteq> {Suc ?a..<next_addr ?g2}" using g(2) by auto
    then show ?thesis using keep [OF a] 1(2,3) by auto
  qed
  have before: "r ?g2 (ys ! i) \<subseteq> {Suc ?a..<next_addr ?g2} \<and> v ?g2 (ys ! i) = v h (elems in_cell h sl ! i)" if "i < n" for i
  proof -
    have i: "r ?g (ys ! i) \<subseteq> {Suc ?a..<next_addr ?g}" "v ?g (ys ! i) = v h (elems in_cell h sl ! i)"
      using ys [OF that] by simp_all
    have "r ?g (ys ! i) \<subseteq> old ?g" using i(1) by auto
    then have k: "r g' (ys ! i) = r ?g (ys ! i) \<and> v g' (ys ! i) = v ?g (ys ! i)" by (rule copier.kept [OF c 1(1)])
    then have a: "?a \<notin> r g' (ys ! i)" using i(1) by auto
    have "{Suc ?a..<next_addr ?g} \<subseteq> {Suc ?a..<next_addr ?g2}" using nx by auto
    then show ?thesis using keep [OF a] k i by auto
  qed
  have "extends h ?g2" by (rule extends_store [OF extends_trans [OF g(1) 1(1)]]) simp
  moreover have "Suc ?a \<le> next_addr ?g2" using g(2) nx by simp
  moreover have "\<forall>i < Suc n. r ?g2 (ys[n := y] ! i) \<subseteq> {Suc ?a..<next_addr ?g2}
      \<and> v ?g2 (ys[n := y] ! i) = v h (elems in_cell h sl ! i)"
    using new before g(4) n by (auto simp: less_Suc_eq nth_list_update)
  moreover have "in_cell (cell_at ?g2 ?a) = ys[n := y]" by (simp add: cell)
  ultimately show ?case
    unfolding s Let_def using g(4) by (intro exI [of _ "ys[n := y]"]) simp
qed

lemma copier_array:
  fixes in_cell :: "'x cell option \<Rightarrow> 'a list"
  assumes c: "copier c r v" and cell: "\<And>xs. in_cell (Some (to_cell xs)) = xs"
  shows "copier (copy_array to_cell in_cell zero c) (reach_array in_cell r) (val_array in_cell v)"
proof
  fix h s t h'
  assume o: "reach_array in_cell r h s \<subseteq> old h" and e: "copy_array to_cell in_cell zero c s h = (t, h')"
  show "extends h h' \<and> reach_array in_cell r h' t \<subseteq> fresh h h' \<and> val_array in_cell v h' t = val_array in_cell v h s"
  proof (cases s)
    case None
    then show ?thesis using e by (simp add: copy_array_def reach_array_def val_array_def)
  next
    case (Some sl)
    let ?a = "next_addr h" and ?z = "to_cell (replicate (sl_len sl) zero)"
    obtain h1 where al: "alloc ?z h = (?a, h1)" "extends h h1" "next_addr h1 = Suc ?a" "cell_at h1 ?a = Some ?z"
      by (rule allocE [of ?z h]) (rule that)
    have old: "sl_array sl < ?a" "\<And>x. x \<in> set (elems in_cell h sl) \<Longrightarrow> r h x \<subseteq> old h"
      using o by (auto simp: Some reach_array_def)
    let ?step = "\<lambda>i g. let (y, g') = c (elems in_cell g sl ! i) g
      in store ?a (to_cell ((in_cell (cell_at g' ?a))[i := y])) g'"
    have t: "t = Some (new_slice ?a (sl_len sl))" "h' = fold ?step [0..<sl_len sl] h1"
      using e by (simp_all add: Some copy_array_def al(1))
    have len: "length (in_cell (cell_at h1 ?a)) = sl_len sl" by (simp add: al(4) cell)
    obtain ys where ys: "extends h h'" "Suc ?a \<le> next_addr h'" "in_cell (cell_at h' ?a) = ys" "length ys = sl_len sl"
      "\<And>i. i < sl_len sl \<Longrightarrow> r h' (ys ! i) \<subseteq> {Suc ?a..<next_addr h'} \<and> v h' (ys ! i) = v h (elems in_cell h sl ! i)"
      using array_loop [where in_cell = in_cell and to_cell = to_cell, OF c cell old al(2,3) len order_refl]
      unfolding t(2) Let_def by blast
    have el: "elems in_cell h' (new_slice ?a (sl_len sl)) = ys" by (rule elems_new) (rule ys(3), rule ys(4))
    have "r h' y \<subseteq> fresh h h'" if m: "y \<in> set ys" for y
    proof -
      obtain i where "i < sl_len sl" "y = ys ! i" using m ys(4) by (auto simp: in_set_conv_nth)
      then show ?thesis using ys(5) [of i] by auto
    qed
    then have "reach_array in_cell r h' t \<subseteq> fresh h h'"
      using ys(2) by (auto simp: t(1) reach_array_def el)
    moreover have "map (v h') ys = map (v h) (elems in_cell h sl)"
      using ys(4,5) by (intro nth_equalityI) simp_all
    ultimately show ?thesis using ys(1) by (simp add: Some t(1) val_array_def el)
  qed
next
  fix h h' s
  assume a: "agree (reach_array in_cell r h s) h h'"
  show "reach_array in_cell r h' s = reach_array in_cell r h s \<and> val_array in_cell v h' s = val_array in_cell v h s"
  proof (cases s)
    case (Some sl)
    have "cell_at h' (sl_array sl) = cell_at h (sl_array sl)"
      using a by (simp add: Some reach_array_def agree_def)
    then have e: "elems in_cell h' sl = elems in_cell h sl" by (rule elems_cong)
    have "r h' x = r h x \<and> v h' x = v h x" if "x \<in> set (elems in_cell h sl)" for x
    proof -
      have "r h x \<subseteq> reach_array in_cell r h s" using that by (auto simp: Some reach_array_def)
      then show ?thesis using copier.framed [OF c agree_mono [OF a]] by blast
    qed
    then show ?thesis by (simp add: Some reach_array_def val_array_def e)
  qed (simp add: reach_array_def val_array_def)
qed

section \<open>The API types\<close>

definition reach_template :: "'x memory \<Rightarrow> mem_template \<Rightarrow> nat set" where
  "reach_template h t = reach_map h (gLabels t) \<union> reach_map h (gAnnotations t)"

definition val_template :: "'x memory \<Rightarrow> mem_template \<Rightarrow> (string \<rightharpoonup> string) option go_template" where
  "val_template h t = \<lparr>gLabels = val_map h (gLabels t), gAnnotations = val_map h (gAnnotations t)\<rparr>"

interpretation template: copier template_copy_into reach_template val_template
proof -
  have "copier template_copy_into
      (\<lambda>h t. (case (gLabels t, gAnnotations t) of (x, z) \<Rightarrow> reach_map h x \<union> reach_map h z))
      (\<lambda>h t. (case (case (gLabels t, gAnnotations t) of (x, z) \<Rightarrow> (val_map h x, val_map h z)) of
         (l, a) \<Rightarrow> \<lparr>gLabels = l, gAnnotations = a\<rparr>))"
    by (rule copier_fields [OF copier_pair [OF copier_map copier_map],
          where put = "\<lambda>(l, a) t. t\<lparr>gLabels := l, gAnnotations := a\<rparr>"])
      (auto simp: template_copy_into_def copy_pair_def split: prod.splits)
  then show "copier template_copy_into reach_template val_template"
    by (simp add: reach_template_def [abs_def] val_template_def [abs_def])
qed

lemma template_cell: "template_in (Some (TemplateCell t)) = t"
  by (simp add: template_in_def)

abbreviation reach_template_pointer :: "'x memory \<Rightarrow> nat option \<Rightarrow> nat set" where
  "reach_template_pointer \<equiv> reach_pointer template_in reach_template"

abbreviation val_template_pointer :: "'x memory \<Rightarrow> nat option \<Rightarrow> (string \<rightharpoonup> string) option go_template option" where
  "val_template_pointer \<equiv> val_pointer template_in val_template"

lemmas copier_template_pointer = copier_pointer [OF template.copier_axioms template_cell]

definition reach_spec :: "'x memory \<Rightarrow> mem_spec \<Rightarrow> nat set" where
  "reach_spec h s = reach_strings h (gRedirectURIs s) \<union> (reach_strings h (gGrantTypes s) \<union>
     (reach_strings h (gResponseTypes s) \<union> (reach_strings h (gContacts s) \<union>
      reach_template_pointer h (gSecretTemplate s))))"

type_synonym spec_value = "(string list option, (string \<rightharpoonup> string) option go_template option) go_spec"

definition spec_with :: "mem_spec \<Rightarrow> string list option \<times> string list option \<times> string list option \<times> string list option
     \<times> (string \<rightharpoonup> string) option go_template option \<Rightarrow> spec_value" where
  "spec_with s = (\<lambda>(us, gs, rs, cs, t).
     \<lparr>gClientName = gClientName s, gRedirectURIs = us, gTokenEndpointAuthMethod = gTokenEndpointAuthMethod s,
      gGrantTypes = gs, gResponseTypes = rs, gScope = gScope s, gClientURI = gClientURI s, gLogoURI = gLogoURI s,
      gContacts = cs, gApplicationType = gApplicationType s, gSecretName = gSecretName s, gSecretTemplate = t,
      gUpdatePolicy = gUpdatePolicy s, gDeletionPolicy = gDeletionPolicy s\<rparr>)"

definition val_spec :: "'x memory \<Rightarrow> mem_spec \<Rightarrow> spec_value" where
  "val_spec h s = spec_with s (val_strings h (gRedirectURIs s), val_strings h (gGrantTypes s),
     val_strings h (gResponseTypes s), val_strings h (gContacts s), val_template_pointer h (gSecretTemplate s))"

interpretation spec: copier spec_copy_into reach_spec val_spec
proof -
  let ?get = "\<lambda>s. (gRedirectURIs s, gGrantTypes s, gResponseTypes s, gContacts s, gSecretTemplate s)"
  let ?put = "\<lambda>(us, gs, rs, cs, t) s. s\<lparr>gRedirectURIs := us, gGrantTypes := gs, gResponseTypes := rs,
    gContacts := cs, gSecretTemplate := t\<rparr>"
  let ?c4 = "copy_pair copy_strings (copy_pointer TemplateCell template_in zero_template template_copy_into)"
    and ?r4 = "\<lambda>h (x, z). reach_strings h x \<union> reach_template_pointer h z"
    and ?v4 = "\<lambda>h (x, z). (val_strings h x, val_template_pointer h z)"
  let ?c3 = "copy_pair copy_strings ?c4" and ?r3 = "\<lambda>h (x, z). reach_strings h x \<union> ?r4 h z"
    and ?v3 = "\<lambda>h (x, z). (val_strings h x, ?v4 h z)"
  let ?c2 = "copy_pair copy_strings ?c3" and ?r2 = "\<lambda>h (x, z). reach_strings h x \<union> ?r3 h z"
    and ?v2 = "\<lambda>h (x, z). (val_strings h x, ?v3 h z)"
  let ?c1 = "copy_pair copy_strings ?c2" and ?r1 = "\<lambda>h (x, z). reach_strings h x \<union> ?r2 h z"
    and ?v1 = "\<lambda>h (x, z). (val_strings h x, ?v2 h z)"
  have c: "copier ?c1 ?r1 ?v1"
    by (intro copier_pair copier_strings copier_template_pointer)
  have 1: "spec_copy_into s h = (let (y, h') = ?c1 (?get s) h in (?put y s, h'))" for s and h :: "'b memory"
    by (simp add: spec_copy_into_def copy_pair_def Let_def split: prod.splits)
  have 2: "?get (?put y s) = y" for y s by (simp add: case_prod_beta)
  have 3: "spec_with (?put y s) u = spec_with s u" for y s u by (simp add: spec_with_def case_prod_beta)
  have "copier spec_copy_into (\<lambda>h s. ?r1 h (?get s)) (\<lambda>h s. spec_with s (?v1 h (?get s)))"
    by (rule copier_fields [where c = ?c1 and r = ?r1 and v = ?v1 and get = ?get and put = ?put and mk = spec_with,
          OF c 1 2 3])
  then show "copier spec_copy_into reach_spec val_spec"
    by (simp add: reach_spec_def [abs_def] val_spec_def [abs_def])
qed

text \<open>
  The copies over structs of apimachinery. \<open>r\<close> and \<open>v\<close> are the cells such a struct reaches and the value it
  has: one pair for the metadata of objects, one for that of lists, one for conditions.
\<close>

definition reach_status :: "('x memory \<Rightarrow> 'x \<Rightarrow> nat set) \<Rightarrow> 'x memory \<Rightarrow> mem_status \<Rightarrow> nat set" where
  "reach_status rc h s = reach_array conditions_in rc h (gConditions s)"

definition status_with :: "mem_status \<Rightarrow> 'c list option \<Rightarrow> 'c list option go_status" where
  "status_with s cs = \<lparr>gClientID = gClientID s, gStatusSecretName = gStatusSecretName s, gIssuer = gIssuer s,
     gObservedGeneration = gObservedGeneration s, gConditions = cs\<rparr>"

definition val_status :: "('x memory \<Rightarrow> 'x \<Rightarrow> 'c) \<Rightarrow> 'x memory \<Rightarrow> mem_status \<Rightarrow> 'c list option go_status" where
  "val_status vc h s = status_with s (val_array conditions_in vc h (gConditions s))"

lemma copier_status:
  assumes "copier (copy_condition L) rc vc"
  shows "copier (status_copy_into L) (reach_status rc) (val_status vc)"
proof -
  let ?c = "copy_array Conditions conditions_in (zero_condition L) (copy_condition L)"
  have c: "copier ?c (reach_array conditions_in rc) (val_array conditions_in vc)"
    by (rule copier_array [OF assms]) (simp add: conditions_in_def)
  have 1: "status_copy_into L s h = (let (y, h') = ?c (gConditions s) h in (s\<lparr>gConditions := y\<rparr>, h'))" for s h
    by (simp add: status_copy_into_def)
  have 3: "status_with (s\<lparr>gConditions := y\<rparr>) u = status_with s u" for s y and u :: "'c list option"
    by (simp add: status_with_def)
  have "copier (status_copy_into L) (\<lambda>h s. reach_array conditions_in rc h (gConditions s))
      (\<lambda>h s. status_with s (val_array conditions_in vc h (gConditions s)))"
    by (rule copier_fields [where c = ?c and get = gConditions and put = "\<lambda>y s. s\<lparr>gConditions := y\<rparr>"
          and mk = status_with, OF c 1 _ 3]) simp
  then show ?thesis by (simp add: reach_status_def [abs_def] val_status_def [abs_def])
qed

definition reach_object ::
  "('x memory \<Rightarrow> 'x \<Rightarrow> nat set) \<Rightarrow> ('x memory \<Rightarrow> 'x \<Rightarrow> nat set) \<Rightarrow> 'x memory \<Rightarrow> 'x mem_object \<Rightarrow> nat set" where
  "reach_object rm rc h x = rm h (gObjectMeta x) \<union> (reach_spec h (gSpec x) \<union> reach_status rc h (gStatus x))"

definition object_with :: "'x mem_object \<Rightarrow> 'm \<times> spec_value \<times> 'c list option go_status \<Rightarrow>
    ('m, spec_value, 'c list option go_status) go_object" where
  "object_with x = (\<lambda>(m, sp, st). \<lparr>gTypeMeta = gTypeMeta x, gObjectMeta = m, gSpec = sp, gStatus = st\<rparr>)"

definition val_object ::
  "('x memory \<Rightarrow> 'x \<Rightarrow> 'm) \<Rightarrow> ('x memory \<Rightarrow> 'x \<Rightarrow> 'c) \<Rightarrow> 'x memory \<Rightarrow> 'x mem_object \<Rightarrow>
     ('m, spec_value, 'c list option go_status) go_object" where
  "val_object vm vc h x = object_with x (vm h (gObjectMeta x), val_spec h (gSpec x), val_status vc h (gStatus x))"

lemma copier_object:
  assumes m: "copier (copy_object_meta L) rm vm" and c: "copier (copy_condition L) rc vc"
  shows "copier (object_copy_into L) (reach_object rm rc) (val_object vm vc)"
proof -
  let ?get = "\<lambda>x. (gObjectMeta x, gSpec x, gStatus x)"
    and ?put = "\<lambda>(m, sp, st) x. x\<lparr>gObjectMeta := m, gSpec := sp, gStatus := st\<rparr>"
  let ?c2 = "copy_pair spec_copy_into (status_copy_into L)"
    and ?r2 = "\<lambda>h (x, z). reach_spec h x \<union> reach_status rc h z" and ?v2 = "\<lambda>h (x, z). (val_spec h x, val_status vc h z)"
  let ?c1 = "copy_pair (copy_object_meta L) ?c2"
    and ?r1 = "\<lambda>h (x, z). rm h x \<union> ?r2 h z" and ?v1 = "\<lambda>h (x, z). (vm h x, ?v2 h z)"
  have c: "copier ?c1 ?r1 ?v1"
    by (intro copier_pair m spec.copier_axioms copier_status c)
  have 1: "object_copy_into L x h = (let (y, h') = ?c1 (?get x) h in (?put y x, h'))" for x h
    by (simp add: object_copy_into_def copy_pair_def Let_def split: prod.splits)
  have 2: "?get (?put y x) = y" for y x by (simp add: case_prod_beta)
  have 3: "object_with (?put y x) u = object_with x u" for y x u by (simp add: object_with_def case_prod_beta)
  have "copier (object_copy_into L) (\<lambda>h x. ?r1 h (?get x)) (\<lambda>h x. object_with x (?v1 h (?get x)))"
    by (rule copier_fields [where c = ?c1 and r = ?r1 and v = ?v1 and get = ?get and put = ?put and mk = object_with,
          OF c 1 2 3])
  then show ?thesis by (simp add: reach_object_def [abs_def] val_object_def [abs_def])
qed

definition reach_list ::
  "('x memory \<Rightarrow> 'x \<Rightarrow> nat set) \<Rightarrow> ('x memory \<Rightarrow> 'x \<Rightarrow> nat set) \<Rightarrow> ('x memory \<Rightarrow> 'x \<Rightarrow> nat set) \<Rightarrow>
     'x memory \<Rightarrow> 'x mem_list \<Rightarrow> nat set" where
  "reach_list rl rm rc h x = rl h (gListMeta x) \<union> reach_array objects_in (reach_object rm rc) h (gItems x)"

definition list_with :: "'x mem_list \<Rightarrow> 'l \<times> 'o list option \<Rightarrow> ('l, 'o list option) go_object_list" where
  "list_with x = (\<lambda>(l, is). \<lparr>gListTypeMeta = gListTypeMeta x, gListMeta = l, gItems = is\<rparr>)"

definition val_list ::
  "('x memory \<Rightarrow> 'x \<Rightarrow> 'l) \<Rightarrow> ('x memory \<Rightarrow> 'x \<Rightarrow> 'm) \<Rightarrow> ('x memory \<Rightarrow> 'x \<Rightarrow> 'c) \<Rightarrow> 'x memory \<Rightarrow> 'x mem_list \<Rightarrow>
     ('l, ('m, spec_value, 'c list option go_status) go_object list option) go_object_list" where
  "val_list vl vm vc h x = list_with x (vl h (gListMeta x), val_array objects_in (val_object vm vc) h (gItems x))"

lemma copier_list:
  assumes l: "copier (copy_list_meta L) rl vl" and m: "copier (copy_object_meta L) rm vm"
    and c: "copier (copy_condition L) rc vc"
  shows "copier (list_copy_into L) (reach_list rl rm rc) (val_list vl vm vc)"
proof -
  let ?get = "\<lambda>x. (gListMeta x, gItems x)" and ?put = "\<lambda>(l, is) x. x\<lparr>gListMeta := l, gItems := is\<rparr>"
  let ?a = "copy_array Objects objects_in (zero_object L) (object_copy_into L)"
    and ?ra = "reach_array objects_in (reach_object rm rc)" and ?va = "val_array objects_in (val_object vm vc)"
  let ?c1 = "copy_pair (copy_list_meta L) ?a"
    and ?r1 = "\<lambda>h (x, z). rl h x \<union> ?ra h z" and ?v1 = "\<lambda>h (x, z). (vl h x, ?va h z)"
  have "copier ?a ?ra ?va"
    by (rule copier_array [OF copier_object [OF m c]]) (simp add: objects_in_def)
  then have c: "copier ?c1 ?r1 ?v1" by (rule copier_pair [OF l])
  have 1: "list_copy_into L x h = (let (y, h') = ?c1 (?get x) h in (?put y x, h'))" for x h
    by (simp add: list_copy_into_def copy_pair_def Let_def split: prod.splits)
  have 2: "?get (?put y x) = y" for y x by (simp add: case_prod_beta)
  have 3: "list_with (?put y x) u = list_with x u" for y x u by (simp add: list_with_def case_prod_beta)
  have "copier (list_copy_into L) (\<lambda>h x. ?r1 h (?get x)) (\<lambda>h x. list_with x (?v1 h (?get x)))"
    by (rule copier_fields [where c = ?c1 and r = ?r1 and v = ?v1 and get = ?get and put = ?put and mk = list_with,
          OF c 1 2 3])
  then show ?thesis by (simp add: reach_list_def [abs_def] val_list_def [abs_def])
qed

section \<open>Deep copies are isolated\<close>

lemma copier_object_pointer:
  assumes "copier (copy_object_meta L) rm vm" and "copier (copy_condition L) rc vc"
  shows "copier (object_deep_copy L) (reach_pointer (object_in L) (reach_object rm rc))
    (val_pointer (object_in L) (val_object vm vc))"
  unfolding object_deep_copy_def by (rule copier_pointer [OF copier_object [OF assms]]) (simp add: object_in_def)

lemma copier_list_pointer:
  assumes "copier (copy_list_meta L) rl vl" and "copier (copy_object_meta L) rm vm" and "copier (copy_condition L) rc vc"
  shows "copier (list_deep_copy L) (reach_pointer (list_in L) (reach_list rl rm rc))
    (val_pointer (list_in L) (val_list vl vm vc))"
  unfolding list_deep_copy_def by (rule copier_pointer [OF copier_list [OF assms]]) (simp add: list_in_def)

text \<open>
  The copy \<open>q\<close> in \<open>h'\<close> of what \<open>p\<close> is in \<open>h\<close> has its value and shares no cell with anything that existed. Writes
  that leave the old cells alone (through the copy, say) do not show in the original; writes to
  old cells only (through the original, say) do not show in the copy.
\<close>

definition isolated_copy ::
  "('x memory \<Rightarrow> 'a \<Rightarrow> nat set) \<Rightarrow> ('x memory \<Rightarrow> 'a \<Rightarrow> 'v) \<Rightarrow> 'x memory \<Rightarrow> 'a \<Rightarrow> 'x memory \<Rightarrow> 'a \<Rightarrow> bool" where
  "isolated_copy r v h p h' q \<longleftrightarrow> v h' q = v h p \<and> r h' q \<inter> old h = {}
     \<and> (\<forall>h''. agree (old h) h' h'' \<longrightarrow> v h'' p = v h p)
     \<and> (\<forall>h''. agree (- old h) h' h'' \<longrightarrow> v h'' q = v h p)"

lemma copier_isolated:
  assumes "copier c r v" and "r h p \<subseteq> old h" and "c p h = (q, h')"
  shows "isolated_copy r v h p h' q"
  using copier.isolated [OF assms] by (simp add: isolated_copy_def)

text \<open>
  C37: Deep copies are isolated: when the copies of apimachinery's own structs are, the deep copy of an
  object and that of a list of objects have the value of the original, nil slices and maps included, share no
  memory with it, and neither shows later writes to the other; and \<open>DeepCopyObject\<close> of nil is a nil interface.
\<close>

theorem deep_copies_isolated:
  assumes "copier (copy_list_meta L) rl vl" and "copier (copy_object_meta L) rm vm" and "copier (copy_condition L) rc vc"
    and "reach_pointer (object_in L) (reach_object rm rc) h p \<subseteq> old h" and "object_deep_copy L p h = (q, h1)"
    and "reach_pointer (list_in L) (reach_list rl rm rc) h l \<subseteq> old h" and "list_deep_copy L l h = (k, h2)"
  shows "isolated_copy (reach_pointer (object_in L) (reach_object rm rc)) (val_pointer (object_in L) (val_object vm vc)) h p h1 q
    \<and> isolated_copy (reach_pointer (list_in L) (reach_list rl rm rc)) (val_pointer (list_in L) (val_list vl vm vc)) h l h2 k
    \<and> (q = None) = (p = None) \<and> (fst (object_deep_copy_object L p h) = None) = (p = None)"
proof -
  have "(q = None) = (p = None)"
    using assms(5) by (auto simp: object_deep_copy_def copy_pointer_def Let_def split: option.splits prod.splits)
  then show ?thesis
    using copier_isolated [OF copier_object_pointer [OF assms(2,3)] assms(4,5)]
      copier_isolated [OF copier_list_pointer [OF assms(1-3)] assms(6,7)] assms(5)
    by (auto simp: object_deep_copy_object_def split: option.splits)
qed

section \<open>A concrete memory\<close>

text \<open>Library structs without references, which the library copies by assignment.\<close>

definition plain_library :: "string apimachinery" where
  "plain_library = \<lparr>copy_object_meta = Pair, copy_list_meta = Pair, copy_condition = Pair,
     zero_object_meta = [], zero_list_meta = [], zero_condition = []\<rparr>"

definition one_object :: "string memory" where
  "one_object = \<lparr>next_addr = 2, cell_at =
     [0 \<mapsto> ObjectCell \<lparr>gTypeMeta = (''OIDCClient'', ''v1alpha1''), gObjectMeta = ''app'',
             gSpec = zero_spec\<lparr>gRedirectURIs := Some (new_slice 1 1)\<rparr>, gStatus = zero_status\<rparr>,
      1 \<mapsto> Strings [''https://a/cb'']]\<rparr>"

lemma copier_plain: "copier Pair (\<lambda>h x. {}) (\<lambda>h x. x)"
  by unfold_locales auto

theorem deep_copies_isolated_witness:
  "\<exists>q h. object_deep_copy plain_library (Some 0) one_object = (Some q, h)
     \<and> val_pointer (object_in plain_library) (val_object (\<lambda>h x. x) (\<lambda>h x. x)) (store 1 (Strings [''https://b/cb'']) h) (Some q)
       = val_pointer (object_in plain_library) (val_object (\<lambda>h x. x) (\<lambda>h x. x)) one_object (Some 0)"
proof -
  obtain q h where q: "object_deep_copy plain_library (Some 0) one_object = (q, h)" by fastforce
  have l: "list_deep_copy plain_library None one_object = (None, one_object)"
    by (simp add: list_deep_copy_def copy_pointer_def)
  have r: "reach_pointer (object_in plain_library) (reach_object (\<lambda>h x. {}) (\<lambda>h x. {})) one_object (Some 0) \<subseteq> old one_object"
    by (simp add: reach_pointer_def reach_object_def reach_spec_def reach_status_def reach_array_def reach_strings_def
        object_in_def one_object_def zero_spec_def zero_status_def)
  have c: "copier (copy_list_meta plain_library) (\<lambda>h x. {}) (\<lambda>h x. x)"
    "copier (copy_object_meta plain_library) (\<lambda>h x. {}) (\<lambda>h x. x)"
    "copier (copy_condition plain_library) (\<lambda>h x. {}) (\<lambda>h x. x)"
    using copier_plain by (simp_all add: plain_library_def)
  have n: "reach_pointer (list_in plain_library) (reach_list (\<lambda>h x. {}) (\<lambda>h x. {}) (\<lambda>h x. {})) one_object None \<subseteq> old one_object"
    by (simp add: reach_pointer_def)
  have a: "agree (- old one_object) h (store 1 (Strings [''https://b/cb'']) h)"
    by (auto simp: agree_def one_object_def)
  from deep_copies_isolated [OF c r q n l] a q show ?thesis
    by (cases q) (auto simp: isolated_copy_def)
qed

end
