(* ===== verification/Spec2Isabelle.thy ===== *)
theory Spec2Isabelle
  imports WorldProperties DataProperties Startup Copies
begin

text \<open>
  A verification development of tsidp-operator.

  The program. The operator reconciles \<open>OIDCClient\<close> objects of a Kubernetes cluster into client
  registrations at tsidp, an OpenID provider, and keeps the credentials of each in a Secret.
  \<open>Reconcile\<close> (internal/controller) reads an object and either runs a pass over a live one
  (\<open>reconcileNormal\<close>) or takes a deleted one apart (\<open>reconcileDelete\<close>); it talks to tsidp through the HTTP
  client of internal/tsidp/client.go; internal/tsidp/tsidpfake/fake.go is the server that client is tested
  against and records what the operator relies on; cmd/main.go sets the manager up. tsidp shows a
  client's secret only once and has no field for an owner, so the operator puts a
  fingerprint of the object into the client's name, and what is hard is to end with exactly one
  registration and its credentials stored, however calls fail, other actors interfere, or the process is killed.

  How programs are modelled. A handler is a tree of calls (\<open>prog\<close> of \<open>Effects\<close>): each call to the
  API server, the event recorder or tsidp carries a continuation over every answer. An object mutated through
  a pointer is passed and returned. Go strings are byte strings (\<open>GoStrings\<close> holds UTF-8, trimming,
  lowering and splitting), Go maps are nil or a table (\<open>gomap\<close> of \<open>Prelude\<close>; a write to a nil map is a panic),
  errors are the values of \<open>gerr\<close> with \<open>errors.Is\<close>, and text built by fmt is kept as format and arguments. JSON (\<open>GoJson\<close>) is
  printed, parsed and stored into structs the way encoding/json does it, URLs and forms (\<open>GoUrl\<close>) the way net/url does it.

  Which theory models what.
  \<^item> \<open>ApiTypes\<close>: api/v1alpha1/oidcclient_types.go, with the validation markers as \<open>spec_admitted\<close>.
  \<^item> \<open>Naming\<close>, \<open>SecretContent\<close>, \<open>Reconciler\<close>: oidcclient_controller.go in the order of the source.
    \<open>Naming\<close> has Fingerprint, displayName, registeredName, secretName, sameStringSet; \<open>SecretContent\<close>
    has applySecretTemplate and setSecretMetadata; \<open>Reconciler\<close> has the handlers, one definition per function and one for
    each part of a long function.
  \<^item> \<open>TsidpClient\<close>: internal/tsidp/client.go, one definition per method, over a parameter that
    answers HTTP requests. \<open>TsidpFake\<close>: internal/tsidp/tsidpfake/fake.go, one definition per handler.
  \<^item> \<open>Manager\<close>, \<open>Startup\<close>: cmd/main.go and SetupWithManager, as the calls made to the manager library.
  \<^item> \<open>DeepCopy\<close>: zz_generated.deepcopy.go over an explicit memory. Everywhere else values are immutable, so
    a copy is the value; \<open>Copies\<close> shows that this is what the generated copies amount to.

  The interfaces.
  \<^item> The locale \<open>cluster\<close> (\<open>Registrations\<close>) states what the reconciler needs of the API server and of
    tsidp. \<open>Cluster\<close> interprets it on a closed world: the client of client.go against the server
    of fake.go, and an API server with the documented behaviour (optimistic concurrency, status subresource, finalizers,
    deletion preconditions, a label-filtered cache). \<open>Interference\<close> shows that the laws survive a
    step of any other actor after every single call and interprets the locale on that environment too.
  \<^item> The locale \<open>copier\<close> (\<open>Copies\<close>) is what a deep copy owes its caller: the value of the original, in new
    cells only. The copies of templates and specs meet it, those of statuses, objects and lists when
    apimachinery's own copies do.
  \<^item> The locale \<open>registry\<close> (\<open>Registry\<close>) is the abstract map of registrations with its five operations;
    its interpretation shows that the client over the server refines it.

  What the lemmas show.
  \<^item> \<open>LivePass\<close>, \<open>LiveHandlers\<close>, \<open>DeletePass\<close>, \<open>ReconcilePass\<close>: the contract of a reconcile for every
    environment: a guard on each call in terms of the calls answered before it, and a description of the result
    (\<open>reconcile_spec\<close>). \<open>PassProperties\<close> reads the properties of single reconciles off it.
  \<^item> \<open>Executions\<close>, \<open>Registrations\<close>: executions killed after any call; one registration for each object as
    an invariant of them. \<open>WorldProperties\<close> states it for the life of a whole cluster.
  \<^item> \<open>Convergence\<close>: without disturbance one reconcile reaches the state in sync, further ones keep it, and
    one reconcile of a deleted object lets it go.
  \<^item> \<open>SecretProperties\<close>: template edits converge, credentials are never lost by a write of metadata.
  \<^item> \<open>FakeContract\<close>, \<open>ClientProperties\<close>, \<open>DataProperties\<close>: what each client operation does at the
    server; errors, round trips, comparisons, the parser.
  \<^item> \<open>Examples\<close>: the concrete values of the witnesses.

  Bounds and fuel. The JSON parser runs on fuel of twice the length of the input plus two, and
  \<open>parse_fuel_irrelevant\<close> shows that more changes nothing; its nesting bound 10000 is that of encoding/json.
  Every other function is total by structural recursion or a measure. Integers of the API are unbounded except
  \<open>apiError.Status\<close>, which takes 64-bit literals only.

  What is assumed. The helpers of controller-runtime and apimachinery that compute on values
  (finalizer lists, condition lists, owner references) are fields of \<open>reconciler\<close>; \<open>library_laws\<close> states their documented
  behaviour where a theorem needs it. Names, namespaces and UIDs are non-empty ASCII without white space, slashes
  or brackets (\<open>plain_metadata\<close>), as Kubernetes validates them. The API server of \<open>Cluster\<close> and the other actors of
  \<open>others\<close> are the environment's documented behaviour, not code of the repository. Reconciles do not overlap, as the
  controller runs one worker.

  Not modelled. The scheme registration of groupversion_info.go and the init functions hand package values to the
  scheme library and hold no logic. Parsing of the command
  line, logging, contexts, timeouts and the Prometheus metrics are library behaviour; a timeout is one of the errors
  any call may return. Go's map iteration order is the order of the table, which no theorem fixes. Charts, manifests and
  shell scripts are configuration.
\<close>

end
